theory Spec2Isabelle
  imports Complex_Main "HOL-Library.Word"
begin

section \<open>Data model\<close>

text \<open>
  The embedding follows \<^verbatim>\<open>src/explore/src/frontier_search.cpp\<close>.

  A C++ \<^verbatim>\<open>double\<close> is read as a real number without rounding, extended by the IEEE
  special values that the code produces itself: \<^verbatim>\<open>buildNewFrontier\<close> seeds
  \<^verbatim>\<open>min_distance\<close> with \<^verbatim>\<open>std::numeric_limits<double>::infinity()\<close>, and
  \<^verbatim>\<open>frontierCost\<close> multiplies that field by \<^verbatim>\<open>potential_scale_\<close>. World coordinates,
  the configuration and the map geometry are finite and are plain reals.
  An \<^verbatim>\<open>unsigned int\<close> cell index or count is a natural number: the grids in question
  have fewer than \<open>2 ^ 32\<close> cells, so no index arithmetic of the source wraps; the
  conversion of a double to a grid coordinate (in \<^verbatim>\<open>worldToMap\<close>) is written out.
  An \<^verbatim>\<open>unsigned char\<close> cell value is an \<open>8 word\<close>.
\<close>

datatype double = Finite real | PosInf | NegInf | NaN

fun dmul :: "double \<Rightarrow> double \<Rightarrow> double" where
  "dmul (Finite a) (Finite b) = Finite (a * b)"
| "dmul NaN _ = NaN"
| "dmul _ NaN = NaN"
| "dmul (Finite a) PosInf = (if a = 0 then NaN else if 0 < a then PosInf else NegInf)"
| "dmul (Finite a) NegInf = (if a = 0 then NaN else if 0 < a then NegInf else PosInf)"
| "dmul PosInf (Finite b) = (if b = 0 then NaN else if 0 < b then PosInf else NegInf)"
| "dmul NegInf (Finite b) = (if b = 0 then NaN else if 0 < b then NegInf else PosInf)"
| "dmul PosInf PosInf = PosInf"
| "dmul PosInf NegInf = NegInf"
| "dmul NegInf PosInf = NegInf"
| "dmul NegInf NegInf = PosInf"

fun dadd :: "double \<Rightarrow> double \<Rightarrow> double" where
  "dadd (Finite a) (Finite b) = Finite (a + b)"
| "dadd NaN _ = NaN"
| "dadd _ NaN = NaN"
| "dadd PosInf NegInf = NaN"
| "dadd NegInf PosInf = NaN"
| "dadd PosInf _ = PosInf"
| "dadd NegInf _ = NegInf"
| "dadd _ PosInf = PosInf"
| "dadd _ NegInf = NegInf"

fun dneg :: "double \<Rightarrow> double" where
  "dneg (Finite a) = Finite (- a)"
| "dneg PosInf = NegInf"
| "dneg NegInf = PosInf"
| "dneg NaN = NaN"

definition dsub :: "double \<Rightarrow> double \<Rightarrow> double" where
  "dsub a b = dadd a (dneg b)"

text \<open>The comparison \<^verbatim>\<open><\<close> of two doubles: false as soon as one side is NaN.\<close>

fun dless :: "double \<Rightarrow> double \<Rightarrow> bool" where
  "dless (Finite a) (Finite b) = (a < b)"
| "dless NaN _ = False"
| "dless _ NaN = False"
| "dless _ NegInf = False"
| "dless PosInf _ = False"
| "dless NegInf _ = True"
| "dless _ PosInf = True"

text \<open>The comparison \<^verbatim>\<open><=\<close> of two doubles, which the ordering claims are stated with.\<close>

fun dle :: "double \<Rightarrow> double \<Rightarrow> bool" where
  "dle (Finite a) (Finite b) = (a \<le> b)"
| "dle NaN _ = False"
| "dle _ NaN = False"
| "dle NegInf _ = True"
| "dle _ PosInf = True"
| "dle _ NegInf = False"
| "dle PosInf _ = False"

text \<open>
  \<^verbatim>\<open>geometry_msgs::Point\<close>: its constructor sets every coordinate to 0. The code never
  writes \<^verbatim>\<open>z\<close>, which is left out.
\<close>

record Point =
  px :: real
  py :: real

definition Point0 :: Point where
  "Point0 = \<lparr>px = 0, py = 0\<rparr>"

text \<open>
  \<^verbatim>\<open>struct Frontier\<close>. The field \<^verbatim>\<open>size\<close> is called \<open>size_f\<close> here, since \<open>size\<close> is a
  constant of HOL.
\<close>

record Frontier =
  size_f :: nat
  min_distance :: double
  cost :: double
  initial :: Point
  centroid :: Point
  middle :: Point
  points :: "Point list"

text \<open>
  Modelled from the spec: \<^verbatim>\<open>costmap_2d::Costmap2D\<close>, the external GridMap collaborator, is
  not under src/. The spec gives it a cell classification by flat row-major index, the grid
  size, the resolution and origin, the conversions index to grid coordinates to world
  coordinates, and the world-to-grid bounds check. The three cell values are those of
  \<^verbatim>\<open>costmap_2d/cost_values.h\<close>; the code compares cell values by \<^verbatim>\<open><=\<close>, so that Free is the
  least and Unknown the greatest.
\<close>

record Costmap2D =
  size_x :: nat
  size_y :: nat
  resolution :: real
  origin_x :: real
  origin_y :: real
  charmap :: "8 word list"

definition FREE_SPACE :: "8 word" where "FREE_SPACE = 0"
definition LETHAL_OBSTACLE :: "8 word" where "LETHAL_OBSTACLE = 254"
definition NO_INFORMATION :: "8 word" where "NO_INFORMATION = 255"

definition getIndex :: "Costmap2D \<Rightarrow> nat \<Rightarrow> nat \<Rightarrow> nat" where
  "getIndex cm mx my = my * size_x cm + mx"

definition indexToCells :: "Costmap2D \<Rightarrow> nat \<Rightarrow> nat \<times> nat" where
  "indexToCells cm index =
     (let my = index div size_x cm; mx = index - my * size_x cm in (mx, my))"

definition mapToWorld :: "Costmap2D \<Rightarrow> nat \<Rightarrow> nat \<Rightarrow> real \<times> real" where
  "mapToWorld cm mx my =
     (origin_x cm + (real mx + 0.5) * resolution cm,
      origin_y cm + (real my + 0.5) * resolution cm)"

text \<open>
  The cast \<^verbatim>\<open>(int)\<close> of a double truncates towards zero and does not wrap: a value
  outside the range of \<^verbatim>\<open>int\<close> has no defined result, and neither has the quotient by a
  resolution of 0 (infinite or NaN). The model has no value there, and \<open>worldToMap\<close>
  fails. The assignment of the \<^verbatim>\<open>int\<close> to an \<^verbatim>\<open>unsigned int\<close> is defined: a negative
  value \<open>v\<close> becomes \<open>v + 2 ^ 32\<close>, which is at least \<open>2 ^ 31\<close>.
\<close>

definition double_to_int :: "real \<Rightarrow> int option" where
  "double_to_int r =
     (let t = (if 0 \<le> r then \<lfloor>r\<rfloor> else \<lceil>r\<rceil>)
      in if - (2 ^ 31) \<le> t \<and> t < 2 ^ 31 then Some t else None)"

definition int_to_uint :: "int \<Rightarrow> nat" where
  "int_to_uint v = (if v < 0 then nat (v + 2 ^ 32) else nat v)"

definition worldToMap :: "Costmap2D \<Rightarrow> real \<Rightarrow> real \<Rightarrow> (nat \<times> nat) option" where
  "worldToMap cm wx wy =
     (if wx < origin_x cm \<or> wy < origin_y cm then None
      else if resolution cm = 0 then None
      else
        case (double_to_int ((wx - origin_x cm) / resolution cm),
              double_to_int ((wy - origin_y cm) / resolution cm)) of
          (Some ix, Some iy) \<Rightarrow>
            (let mx = int_to_uint ix;
                 my = int_to_uint iy
             in if mx < size_x cm \<and> my < size_y cm then Some (mx, my) else None)
        | _ \<Rightarrow> None)"

text \<open>The world coordinates of a cell index: \<^verbatim>\<open>indexToCells\<close> followed by \<^verbatim>\<open>mapToWorld\<close>.\<close>

definition cellToWorld :: "Costmap2D \<Rightarrow> nat \<Rightarrow> Point" where
  "cellToWorld cm idx =
     (case indexToCells cm idx of (mx, my) \<Rightarrow>
        (case mapToWorld cm mx my of (wx, wy) \<Rightarrow> \<lparr>px = wx, py = wy\<rparr>))"

text \<open>
  Modelled from the spec: \<^verbatim>\<open>nhood4\<close> and \<^verbatim>\<open>nhood8\<close> of \<^verbatim>\<open>explore/costmap_tools.h\<close> are not
  under src/. The spec's glossary: the 4 edge-adjacent, or 8 edge+corner-adjacent,
  neighbouring cells of a grid cell; only cells of the grid are returned, and a cell
  outside the grid has no neighbours.
\<close>

definition nhood4 :: "Costmap2D \<Rightarrow> nat \<Rightarrow> nat list" where
  "nhood4 cm idx =
     (if size_x cm * size_y cm \<le> idx then []
      else
        (if 0 < idx mod size_x cm then [idx - 1] else []) @
        (if idx mod size_x cm + 1 < size_x cm then [idx + 1] else []) @
        (if size_x cm \<le> idx then [idx - size_x cm] else []) @
        (if idx + size_x cm < size_x cm * size_y cm then [idx + size_x cm] else []))"

definition nhood8 :: "Costmap2D \<Rightarrow> nat \<Rightarrow> nat list" where
  "nhood8 cm idx =
     (if size_x cm * size_y cm \<le> idx then []
      else
        nhood4 cm idx @
        (if 0 < idx mod size_x cm \<and> size_x cm \<le> idx then [idx - 1 - size_x cm] else []) @
        (if 0 < idx mod size_x cm \<and> idx + size_x cm < size_x cm * size_y cm
         then [idx - 1 + size_x cm] else []) @
        (if idx mod size_x cm + 1 < size_x cm \<and> size_x cm \<le> idx
         then [idx + 1 - size_x cm] else []) @
        (if idx mod size_x cm + 1 < size_x cm \<and> idx + size_x cm < size_x cm * size_y cm
         then [idx + 1 + size_x cm] else []))"

text \<open>
  A \<^verbatim>\<open>std::vector<bool>\<close> of flags is a list of booleans, written with \<open>xs[i := True]\<close>.
  Reading it beyond its end is undefined behaviour in C++; \<open>nhood4\<close> and \<open>nhood8\<close> return
  cells of the grid only and \<^verbatim>\<open>searchFrom\<close> sizes the flags to the grid, so the code never
  does. The model reads a set flag there, so that such a cell is never taken.
\<close>

definition test_flag :: "bool list \<Rightarrow> nat \<Rightarrow> bool" where
  "test_flag flags i = (if i < length flags then flags ! i else True)"

text \<open>
  The \<^verbatim>\<open>FrontierSearch\<close> object: the map and the three configuration values given to the
  constructor. Its members \<^verbatim>\<open>map_\<close>, \<^verbatim>\<open>size_x_\<close> and \<^verbatim>\<open>size_y_\<close> are copies taken from the
  map at the start of \<^verbatim>\<open>searchFrom\<close> and are read from the map here. The field names are
  the member names without their trailing underscore; \<open>map_cell fs idx\<close> is \<^verbatim>\<open>map_[idx]\<close>.
\<close>

record FrontierSearch =
  costmap :: Costmap2D
  potential_scale :: real
  gain_scale :: real
  min_frontier_size :: real

definition map_cell :: "FrontierSearch \<Rightarrow> nat \<Rightarrow> 8 word" where
  "map_cell fs idx = charmap (costmap fs) ! idx"

section \<open>The frontier-cell predicate\<close>

definition isNewFrontierCell :: "FrontierSearch \<Rightarrow> nat \<Rightarrow> bool list \<Rightarrow> bool" where
  "isNewFrontierCell fs idx frontier_flag =
     (if map_cell fs idx \<noteq> NO_INFORMATION \<or> test_flag frontier_flag idx then False
      else list_ex (\<lambda>nbr. map_cell fs nbr = FREE_SPACE) (nhood4 (costmap fs) idx))"

section \<open>Building one frontier\<close>

text \<open>
  The body of the \<^verbatim>\<open>if\<close> in the inner loop of \<^verbatim>\<open>buildNewFrontier\<close>, on the output record:
  the point is appended, the size incremented, the centroid sums advanced, and the nearest
  point so far replaced when the new one is strictly nearer to the reference.
\<close>

definition addCell :: "Costmap2D \<Rightarrow> Point \<Rightarrow> nat \<Rightarrow> Frontier \<Rightarrow> Frontier" where
  "addCell cm reference nbr output =
     (let point = cellToWorld cm nbr;
          wx = px point;
          wy = py point;
          output = output\<lparr>points := points output @ [point]\<rparr>;
          output = output\<lparr>size_f := size_f output + 1\<rparr>;
          output = output\<lparr>centroid :=
                      \<lparr>px = px (centroid output) + wx, py = py (centroid output) + wy\<rparr>\<rparr>;
          distance = sqrt ((px reference - wx)\<^sup>2 + (py reference - wy)\<^sup>2)
      in if dless (Finite distance) (min_distance output)
         then output\<lparr>min_distance := Finite distance, middle := \<lparr>px = wx, py = wy\<rparr>\<rparr>
         else output)"

text \<open>
  The \<^verbatim>\<open>for\<close> loop over the 8-connected neighbourhood of one popped cell. The state is the
  queue, the frontier flags and the output record.
\<close>

fun buildNewFrontier_for ::
  "FrontierSearch \<Rightarrow> Point \<Rightarrow> nat list \<Rightarrow> nat list \<times> bool list \<times> Frontier
     \<Rightarrow> nat list \<times> bool list \<times> Frontier" where
  "buildNewFrontier_for fs reference [] st = st"
| "buildNewFrontier_for fs reference (nbr # nbrs) (bfs, frontier_flag, output) =
     (if isNewFrontierCell fs nbr frontier_flag
      then buildNewFrontier_for fs reference nbrs
             (bfs @ [nbr], frontier_flag[nbr := True], addCell (costmap fs) reference nbr output)
      else buildNewFrontier_for fs reference nbrs (bfs, frontier_flag, output))"

text \<open>The number of flags not yet set, which every accepted cell lowers by one.\<close>

definition unset :: "bool list \<Rightarrow> nat" where
  "unset flags = length (filter Not flags)"

lemma unset_update:
  "\<not> test_flag flags i \<Longrightarrow> Suc (unset (flags[i := True])) = unset flags"
proof (induction flags arbitrary: i)
  case Nil
  then show ?case by (simp add: test_flag_def)
next
  case (Cons b flags)
  show ?case
  proof (cases i)
    case 0
    with Cons.prems show ?thesis by (simp add: test_flag_def unset_def)
  next
    case (Suc j)
    with Cons.prems have "\<not> test_flag flags j"
      by (simp add: test_flag_def split: if_splits)
    from Cons.IH [OF this] Suc show ?thesis by (simp add: unset_def)
  qed
qed

lemma buildNewFrontier_for_measure:
  "buildNewFrontier_for fs reference nbrs (bfs, ff, out) = (bfs', ff', out')
   \<Longrightarrow> 2 * unset ff' + length bfs' \<le> 2 * unset ff + length bfs"
proof (induction nbrs arbitrary: bfs ff out)
  case Nil
  then show ?case by simp
next
  case (Cons nbr nbrs)
  show ?case
  proof (cases "isNewFrontierCell fs nbr ff")
    case True
    then have "\<not> test_flag ff nbr" by (auto simp: isNewFrontierCell_def split: if_splits)
    then have u: "Suc (unset (ff[nbr := True])) = unset ff" by (rule unset_update)
    from Cons.prems True
    have "buildNewFrontier_for fs reference nbrs
            (bfs @ [nbr], ff[nbr := True], addCell (costmap fs) reference nbr out)
          = (bfs', ff', out')" by simp
    from Cons.IH [OF this] u show ?thesis by simp
  next
    case False
    with Cons.prems
    have "buildNewFrontier_for fs reference nbrs (bfs, ff, out) = (bfs', ff', out')" by simp
    from Cons.IH [OF this] show ?thesis .
  qed
qed

text \<open>The \<^verbatim>\<open>while (!bfs.empty())\<close> loop of \<^verbatim>\<open>buildNewFrontier\<close>.\<close>

function buildNewFrontier_while ::
  "FrontierSearch \<Rightarrow> Point \<Rightarrow> nat list \<Rightarrow> bool list \<Rightarrow> Frontier \<Rightarrow> bool list \<times> Frontier" where
  "buildNewFrontier_while fs reference [] frontier_flag output = (frontier_flag, output)"
| "buildNewFrontier_while fs reference (idx # bfs) frontier_flag output =
     (case buildNewFrontier_for fs reference (nhood8 (costmap fs) idx)
             (bfs, frontier_flag, output) of
        (bfs', frontier_flag', output') \<Rightarrow>
          buildNewFrontier_while fs reference bfs' frontier_flag' output')"
  by pat_completeness auto
termination
proof (relation "measure (\<lambda>(fs, reference, bfs, ff, out). 2 * unset ff + length bfs)", goal_cases)
  case 1
  show ?case by simp
next
  case (2 fs reference idx bfs ff out bfs' y ff' out')
  then have "buildNewFrontier_for fs reference (nhood8 (costmap fs) idx) (bfs, ff, out)
             = (bfs', ff', out')" by simp
  from buildNewFrontier_for_measure [OF this] show ?case by simp
qed

text \<open>
  \<^verbatim>\<open>buildNewFrontier\<close>: the output record is seeded with size 1 and an infinite
  \<^verbatim>\<open>min_distance\<close>, the initial cell is pushed on the queue, the loop runs, and the centroid
  sums are divided by the final size. The flags are passed by reference in the source and
  are returned here. The field \<^verbatim>\<open>cost\<close> is left uninitialised by the source; the model
  holds 0 there until \<^verbatim>\<open>searchFrom\<close> assigns it.
\<close>

definition buildNewFrontier ::
  "FrontierSearch \<Rightarrow> nat \<Rightarrow> nat \<Rightarrow> bool list \<Rightarrow> Frontier \<times> bool list" where
  "buildNewFrontier fs initial_cell reference frontier_flag =
     (let output = \<lparr>size_f = 1, min_distance = PosInf, cost = Finite 0,
                     initial = cellToWorld (costmap fs) initial_cell,
                     centroid = Point0, middle = Point0, points = []\<rparr>;
          reference_xy = cellToWorld (costmap fs) reference
      in case buildNewFrontier_while fs reference_xy [initial_cell] frontier_flag output of
           (frontier_flag', output') \<Rightarrow>
             (output'\<lparr>centroid :=
                 \<lparr>px = px (centroid output') / real (size_f output'),
                  py = py (centroid output') / real (size_f output')\<rparr>\<rparr>,
              frontier_flag'))"

section \<open>The nearest free cell\<close>

text \<open>
  Modelled from the spec: \<^verbatim>\<open>nearestCell\<close> of \<^verbatim>\<open>explore/costmap_tools.h\<close> is not under src/.
  The spec: given a seed cell index and the grid, it returns the index of the nearest cell
  with the value asked for, or signals "not found" if there is none. The model searches
  breadth first over the 8-connected neighbourhood from the seed.
\<close>

fun nearestCell_for ::
  "nat list \<Rightarrow> nat list \<times> bool list \<Rightarrow> nat list \<times> bool list" where
  "nearestCell_for [] st = st"
| "nearestCell_for (nbr # nbrs) (bfs, visited_flag) =
     (if \<not> test_flag visited_flag nbr
      then nearestCell_for nbrs (bfs @ [nbr], visited_flag[nbr := True])
      else nearestCell_for nbrs (bfs, visited_flag))"

lemma nearestCell_for_measure:
  "nearestCell_for nbrs (bfs, vf) = (bfs', vf')
   \<Longrightarrow> 2 * unset vf' + length bfs' \<le> 2 * unset vf + length bfs"
proof (induction nbrs arbitrary: bfs vf)
  case Nil
  then show ?case by simp
next
  case (Cons nbr nbrs)
  show ?case
  proof (cases "test_flag vf nbr")
    case False
    then have u: "Suc (unset (vf[nbr := True])) = unset vf" by (rule unset_update)
    from Cons.prems False
    have "nearestCell_for nbrs (bfs @ [nbr], vf[nbr := True]) = (bfs', vf')" by simp
    from Cons.IH [OF this] u show ?thesis by simp
  next
    case True
    with Cons.prems have "nearestCell_for nbrs (bfs, vf) = (bfs', vf')" by simp
    from Cons.IH [OF this] show ?thesis .
  qed
qed

function nearestCell_while ::
  "Costmap2D \<Rightarrow> 8 word \<Rightarrow> nat list \<Rightarrow> bool list \<Rightarrow> nat option" where
  "nearestCell_while cm val [] visited_flag = None"
| "nearestCell_while cm val (idx # bfs) visited_flag =
     (if charmap cm ! idx = val then Some idx
      else case nearestCell_for (nhood8 cm idx) (bfs, visited_flag) of
             (bfs', visited_flag') \<Rightarrow> nearestCell_while cm val bfs' visited_flag')"
  by pat_completeness auto
termination
proof (relation "measure (\<lambda>(cm, val, bfs, vf). 2 * unset vf + length bfs)", goal_cases)
  case 1
  show ?case by simp
next
  case (2 cm val idx bfs vf bfs' vf')
  then have "nearestCell_for (nhood8 cm idx) (bfs, vf) = (bfs', vf')" by simp
  from nearestCell_for_measure [OF this] show ?case by simp
qed

definition nearestCell :: "Costmap2D \<Rightarrow> nat \<Rightarrow> 8 word \<Rightarrow> nat option" where
  "nearestCell cm start val =
     (if size_x cm * size_y cm \<le> start then None
      else nearestCell_while cm val [start]
             ((replicate (size_x cm * size_y cm) False)[start := True]))"

section \<open>The cost model\<close>

text \<open>
  The two \<^verbatim>\<open>static\<close> locals of \<^verbatim>\<open>frontierCost\<close> live as long as the process; they are the
  state that a score evaluation takes and returns. Both start at 0.
\<close>

record CostState =
  weight :: real
  flag :: bool

definition CostState0 :: CostState where
  "CostState0 = \<lparr>weight = 0, flag = False\<rparr>"

text \<open>Diagnostics are collected in the order in which the code emits them.\<close>

datatype Diag = ROS_ERROR string | ROS_WARN string | ROS_INFO string

text \<open>
  \<^verbatim>\<open>frontierCost\<close>. The code seeds a generator from \<^verbatim>\<open>std::random_device\<close> in every
  evaluation and draws one sample from a normal distribution with mean 0 and standard
  deviation 0.2. The argument \<open>gen\<close> stands for the generator of this evaluation: it
  gives, for the mean and the standard deviation of the distribution, the sample drawn.
\<close>

definition frontierCost ::
  "FrontierSearch \<Rightarrow> Frontier \<Rightarrow> Point \<Rightarrow> (real \<Rightarrow> real \<Rightarrow> real) \<Rightarrow> CostState
     \<Rightarrow> double \<times> CostState \<times> Diag list" where
  "frontierCost fs frontier pose gen st =
     (let human_x = - 2.91756;
          human_y = - 5.26284;
          frontier_x = px (middle frontier);
          frontier_y = py (middle frontier);
          robot_x = px pose;
          robot_y = py pose;
          mean = 0.0;
          std_dev = 0.2;
          frontier_human = sqrt ((human_x - frontier_x)\<^sup>2 + (human_y - frontier_y)\<^sup>2);
          robot_human = sqrt ((human_x - robot_x)\<^sup>2 + (human_y - robot_y)\<^sup>2);
          (st, info) =
            (if robot_human < 3.0
             then (st\<lparr>weight := 0\<rparr>,
                   [ROS_INFO ''robot location: %f, %f'', ROS_INFO ''robot_human: %f''])
             else if robot_human < 6.0 \<and> \<not> flag st
             then (st\<lparr>weight := 3.0, flag := True\<rparr>, [])
             else (st, []));
          noise = gen mean std_dev;
          frontier_human = frontier_human + noise
      in (dadd
            (dsub
               (dmul (dmul (Finite (potential_scale fs)) (min_distance frontier))
                     (Finite (resolution (costmap fs))))
               (Finite (gain_scale fs * real (size_f frontier) * resolution (costmap fs))))
            (Finite (weight st * frontier_human * resolution (costmap fs))),
          st, info))"

section \<open>The search\<close>

text \<open>
  The \<^verbatim>\<open>for\<close> loop over the 4-connected neighbourhood of one popped cell in \<^verbatim>\<open>searchFrom\<close>.
  The state is the queue, the visited flags, the frontier flags and the frontier list.
\<close>

fun searchFrom_for ::
  "FrontierSearch \<Rightarrow> nat \<Rightarrow> nat \<Rightarrow> nat list
     \<Rightarrow> nat list \<times> bool list \<times> bool list \<times> Frontier list
     \<Rightarrow> nat list \<times> bool list \<times> bool list \<times> Frontier list" where
  "searchFrom_for fs pos idx [] st = st"
| "searchFrom_for fs pos idx (nbr # nbrs) (bfs, visited_flag, frontier_flag, frontier_list) =
     (if map_cell fs nbr \<le> map_cell fs idx \<and> \<not> test_flag visited_flag nbr
      then searchFrom_for fs pos idx nbrs
             (bfs @ [nbr], visited_flag[nbr := True], frontier_flag, frontier_list)
      else if isNewFrontierCell fs nbr frontier_flag
      then (case buildNewFrontier fs nbr pos (frontier_flag[nbr := True]) of
              (new_frontier, frontier_flag') \<Rightarrow>
                if min_frontier_size fs
                     \<le> real (size_f new_frontier) * resolution (costmap fs)
                then searchFrom_for fs pos idx nbrs
                       (bfs, visited_flag, frontier_flag', frontier_list @ [new_frontier])
                else searchFrom_for fs pos idx nbrs
                       (bfs, visited_flag, frontier_flag', frontier_list))
      else searchFrom_for fs pos idx nbrs (bfs, visited_flag, frontier_flag, frontier_list))"

lemma searchFrom_for_measure:
  "searchFrom_for fs pos idx nbrs (bfs, vf, ff, fl) = (bfs', vf', ff', fl')
   \<Longrightarrow> 2 * unset vf' + length bfs' \<le> 2 * unset vf + length bfs"
proof (induction nbrs arbitrary: bfs vf ff fl)
  case Nil
  then show ?case by simp
next
  case (Cons nbr nbrs)
  show ?case
  proof (cases "map_cell fs nbr \<le> map_cell fs idx \<and> \<not> test_flag vf nbr")
    case True
    then have u: "Suc (unset (vf[nbr := True])) = unset vf" by (simp add: unset_update)
    from Cons.prems True
    have "searchFrom_for fs pos idx nbrs (bfs @ [nbr], vf[nbr := True], ff, fl)
          = (bfs', vf', ff', fl')" by simp
    from Cons.IH [OF this] u show ?thesis by simp
  next
    case False
    with Cons.prems obtain ff1 fl1
      where "searchFrom_for fs pos idx nbrs (bfs, vf, ff1, fl1) = (bfs', vf', ff', fl')"
      by (auto split: if_splits prod.splits)
    from Cons.IH [OF this] show ?thesis .
  qed
qed

text \<open>The \<^verbatim>\<open>while (!bfs.empty())\<close> loop of \<^verbatim>\<open>searchFrom\<close>.\<close>

function searchFrom_while ::
  "FrontierSearch \<Rightarrow> nat \<Rightarrow> nat list \<Rightarrow> bool list \<Rightarrow> bool list \<Rightarrow> Frontier list
     \<Rightarrow> Frontier list" where
  "searchFrom_while fs pos [] visited_flag frontier_flag frontier_list = frontier_list"
| "searchFrom_while fs pos (idx # bfs) visited_flag frontier_flag frontier_list =
     (case searchFrom_for fs pos idx (nhood4 (costmap fs) idx)
             (bfs, visited_flag, frontier_flag, frontier_list) of
        (bfs', visited_flag', frontier_flag', frontier_list') \<Rightarrow>
          searchFrom_while fs pos bfs' visited_flag' frontier_flag' frontier_list')"
  by pat_completeness auto
termination
proof (relation "measure (\<lambda>(fs, pos, bfs, vf, ff, fl). 2 * unset vf + length bfs)", goal_cases)
  case 1
  show ?case by simp
next
  case (2 fs pos idx bfs vf ff fl bfs' y vf' z ff' fl')
  then have "searchFrom_for fs pos idx (nhood4 (costmap fs) idx) (bfs, vf, ff, fl)
             = (bfs', vf', ff', fl')" by simp
  from searchFrom_for_measure [OF this] show ?case by simp
qed

text \<open>
  The loop that sets the cost of every frontier of the list, in list order. The random
  device \<open>rd\<close> gives the generator of each evaluation; the evaluations of a call are
  numbered from 0.
\<close>

fun setCosts ::
  "FrontierSearch \<Rightarrow> Point \<Rightarrow> (nat \<Rightarrow> real \<Rightarrow> real \<Rightarrow> real) \<Rightarrow> nat \<Rightarrow> Frontier list
     \<Rightarrow> CostState
     \<Rightarrow> Frontier list \<times> CostState \<times> Diag list" where
  "setCosts fs position rd k [] st = ([], st, [])"
| "setCosts fs position rd k (frontier # frontier_list) st =
     (case frontierCost fs frontier position (rd k) st of
        (c, st', info) \<Rightarrow>
          (case setCosts fs position rd (Suc k) frontier_list st' of
             (frontier_list', st'', info') \<Rightarrow>
               (frontier\<lparr>cost := c\<rparr> # frontier_list', st'', info @ info')))"

text \<open>
  \<^verbatim>\<open>std::sort\<close> with the comparison \<^verbatim>\<open>f1.cost < f2.cost\<close>. The standard leaves the order of
  frontiers of equal cost open; the model is an insertion sort that keeps it.
\<close>

fun insert_by_cost :: "Frontier \<Rightarrow> Frontier list \<Rightarrow> Frontier list" where
  "insert_by_cost f [] = [f]"
| "insert_by_cost f (g # gs) =
     (if dless (cost g) (cost f) then g # insert_by_cost f gs else f # g # gs)"

definition sort_by_cost :: "Frontier list \<Rightarrow> Frontier list" where
  "sort_by_cost frontier_list = foldr insert_by_cost frontier_list []"

text \<open>
  \<^verbatim>\<open>searchFrom\<close>. Besides the frontier list it returns the state of the cost model after
  the call and the diagnostics emitted.
\<close>

definition searchFrom ::
  "FrontierSearch \<Rightarrow> Point \<Rightarrow> (nat \<Rightarrow> real \<Rightarrow> real \<Rightarrow> real) \<Rightarrow> CostState
     \<Rightarrow> Frontier list \<times> CostState \<times> Diag list" where
  "searchFrom fs position rd st =
     (case worldToMap (costmap fs) (px position) (py position) of
        None \<Rightarrow>
          ([], st, [ROS_ERROR ''Robot out of costmap bounds, cannot search for frontiers''])
      | Some (mx, my) \<Rightarrow>
          (let n = size_x (costmap fs) * size_y (costmap fs);
               frontier_flag = replicate n False;
               visited_flag = replicate n False;
               pos = getIndex (costmap fs) mx my;
               (start, warn) =
                 (case nearestCell (costmap fs) pos FREE_SPACE of
                    Some clear \<Rightarrow> (clear, [])
                  | None \<Rightarrow>
                      (pos, [ROS_WARN ''Could not find nearby clear cell to start search'']));
               visited_flag = visited_flag[start := True];
               frontier_list = searchFrom_while fs pos [start] visited_flag frontier_flag []
           in case setCosts fs position rd 0 frontier_list st of
                (frontier_list, st', info) \<Rightarrow>
                  (sort_by_cost frontier_list, st', warn @ info)))"

section \<open>Notions used in the statements\<close>

text \<open>The cells whose flag is not set.\<close>

definition unflagged :: "bool list \<Rightarrow> nat set" where
  "unflagged flags = {i. \<not> test_flag flags i}"

text \<open>
  The world points of the cells of a frontier: the initial cell, which \<^verbatim>\<open>size\<close> counts,
  and the points collected by the loop.
\<close>

definition member_points :: "Frontier \<Rightarrow> Point list" where
  "member_points f = initial f # points f"

text \<open>
  The invariant of the outer loop: the member points of the frontiers built so far are the
  world points of pairwise different cells, none of which is still unflagged.
\<close>

definition cells_inv :: "Costmap2D \<Rightarrow> bool list \<Rightarrow> Frontier list \<Rightarrow> bool" where
  "cells_inv cm ff fl =
     (\<exists>css. list_all2 (\<lambda>f cs. member_points f = map (cellToWorld cm) cs) fl css
          \<and> distinct (concat css) \<and> set (concat css) \<inter> unflagged ff = {})"

text \<open>
  The cell from which the outer traversal starts, and the list that the traversal leaves
  before costs are set, as \<^verbatim>\<open>searchFrom\<close> computes them.
\<close>

definition search_start :: "Costmap2D \<Rightarrow> nat \<Rightarrow> nat" where
  "search_start cm pos = (case nearestCell cm pos FREE_SPACE of Some clear \<Rightarrow> clear | None \<Rightarrow> pos)"

definition search_list :: "FrontierSearch \<Rightarrow> nat \<Rightarrow> Frontier list" where
  "search_list fs pos =
     searchFrom_while fs pos [search_start (costmap fs) pos]
       ((replicate (size_x (costmap fs) * size_y (costmap fs)) False)
          [search_start (costmap fs) pos := True])
       (replicate (size_x (costmap fs) * size_y (costmap fs)) False) []"

text \<open>
  The distance that \<^verbatim>\<open>buildNewFrontier\<close> computes between the reference and a point, and
  what it leaves in \<open>min_distance\<close> and \<open>middle\<close>: the nearest of the collected points,
  the first one among equally near ones; with no point collected, the seeds.
\<close>

definition dist_to :: "Point \<Rightarrow> Point \<Rightarrow> real" where
  "dist_to r p = sqrt ((px r - px p)\<^sup>2 + (py r - py p)\<^sup>2)"

definition nearest_ok :: "Point \<Rightarrow> Frontier \<Rightarrow> bool" where
  "nearest_ok r f =
     (if points f = [] then min_distance f = PosInf \<and> middle f = Point0
      else middle f \<in> set (points f) \<and> min_distance f = Finite (dist_to r (middle f))
           \<and> (\<forall>q\<in>set (points f). dist_to r (middle f) \<le> dist_to r q))"

text \<open>
  What \<^verbatim>\<open>buildNewFrontier\<close> leaves in \<open>size\<close> and \<open>centroid\<close>: one more than the number of
  points, and the sum of the points divided by that size.
\<close>

definition centroid_ok :: "Frontier \<Rightarrow> bool" where
  "centroid_ok f =
     (size_f f = length (points f) + 1
      \<and> centroid f = \<lparr>px = sum_list (map px (points f)) / real (length (points f) + 1),
                      py = sum_list (map py (points f)) / real (length (points f) + 1)\<rparr>)"

text \<open>The arithmetic mean of a list of points, as the spec uses it for the centroid.\<close>

definition mean_point :: "Point list \<Rightarrow> Point" where
  "mean_point ps = \<lparr>px = sum_list (map px ps) / real (length ps),
                    py = sum_list (map py ps) / real (length ps)\<rparr>"

text \<open>
  The fixed point of \<^verbatim>\<open>frontierCost\<close> (the \<open>avoidPoint\<close> of the spec) and the two distances
  to it that the code computes: from the robot pose and from the \<open>middle\<close> of the frontier.
\<close>

definition avoid_point :: Point where
  "avoid_point = \<lparr>px = - 2.91756, py = - 5.26284\<rparr>"

definition robot_human :: "Point \<Rightarrow> real" where
  "robot_human pose = dist_to avoid_point pose"

definition frontier_human :: "Frontier \<Rightarrow> real" where
  "frontier_human f = dist_to avoid_point (middle f)"

text \<open>
  The cost of a frontier in the spec's words, for a given weight and noise sample:
  \<open>potentialScale * minDistance * resolution - gainScale * size * resolution
  + weight * (distance(avoidPoint, middlePoint) + noise) * resolution\<close>.
\<close>

definition cost_formula :: "FrontierSearch \<Rightarrow> Frontier \<Rightarrow> real \<Rightarrow> real \<Rightarrow> double" where
  "cost_formula fs f w noise =
     dadd (dsub (dmul (dmul (Finite (potential_scale fs)) (min_distance f))
                      (Finite (resolution (costmap fs))))
                (Finite (gain_scale fs * real (size_f f) * resolution (costmap fs))))
          (Finite (w * (dist_to avoid_point (middle f) + noise) * resolution (costmap fs)))"

text \<open>
  The state of the cost model after one score evaluation, and after a sequence of them,
  each given by the frontier scored, the robot pose and the generator.
\<close>

definition scoreState ::
  "FrontierSearch \<Rightarrow> Frontier \<Rightarrow> Point \<Rightarrow> (real \<Rightarrow> real \<Rightarrow> real) \<Rightarrow> CostState \<Rightarrow> CostState" where
  "scoreState fs f pose gen st = fst (snd (frontierCost fs f pose gen st))"

fun evaluations ::
  "FrontierSearch \<Rightarrow> (Frontier \<times> Point \<times> (real \<Rightarrow> real \<Rightarrow> real)) list \<Rightarrow> CostState
     \<Rightarrow> CostState" where
  "evaluations fs [] st = st"
| "evaluations fs ((f, pose, gen) # es) st = evaluations fs es (scoreState fs f pose gen st)"

section \<open>A map to run the definitions on\<close>

text \<open>
  A map of 3 by 3 cells of edge 1 with origin \<open>(0, 0)\<close>. The cells 0, 5 and 8 are
  unknown, the others free; the robot stands in the middle cell 4. Cell 0 is a frontier of
  its own, the cells 5 and 8 form one frontier, found from cell 5.
\<close>

definition grid_ex :: Costmap2D where
  "grid_ex = \<lparr>size_x = 3, size_y = 3, resolution = 1, origin_x = 0, origin_y = 0,
              charmap = [255, 0, 0,
                         0, 0, 255,
                         0, 0, 255]\<rparr>"

definition search_ex :: "real \<Rightarrow> FrontierSearch" where
  "search_ex ps = \<lparr>costmap = grid_ex, potential_scale = ps, gain_scale = 1,
                   min_frontier_size = 1\<rparr>"

definition robot_ex :: Point where
  "robot_ex = \<lparr>px = 1.5, py = 1.5\<rparr>"

text \<open>The two frontiers that the traversal builds on this map, before costs are set.\<close>

definition pair_ex :: Frontier where
  "pair_ex = \<lparr>size_f = 2, min_distance = Finite (sqrt 2), cost = Finite 0,
              initial = \<lparr>px = 5 / 2, py = 3 / 2\<rparr>, centroid = \<lparr>px = 5 / 4, py = 5 / 4\<rparr>,
              middle = \<lparr>px = 5 / 2, py = 5 / 2\<rparr>, points = [\<lparr>px = 5 / 2, py = 5 / 2\<rparr>]\<rparr>"

definition single_ex :: Frontier where
  "single_ex = \<lparr>size_f = 1, min_distance = PosInf, cost = Finite 0,
                initial = \<lparr>px = 1 / 2, py = 1 / 2\<rparr>, centroid = \<lparr>px = 0, py = 0\<rparr>,
                middle = \<lparr>px = 0, py = 0\<rparr>, points = []\<rparr>"

text \<open>
  Two robot poses at distance 4 and 2 from the fixed point of the cost model: one in the
  band \<open>[3, 6)\<close>, one nearer than 3.
\<close>

definition far_ex :: Point where
  "far_ex = \<lparr>px = 1.08244, py = - 5.26284\<rparr>"

definition near_ex :: Point where
  "near_ex = \<lparr>px = - 0.91756, py = - 5.26284\<rparr>"

text \<open>
  A random device for the examples: every generator returns the mean of the distribution
  it is asked for. The second one differs from it after the first two evaluations.
\<close>

definition mean_gen :: "real \<Rightarrow> real \<Rightarrow> real" where
  "mean_gen mean std_dev = mean"

definition rd_ex :: "nat \<Rightarrow> real \<Rightarrow> real \<Rightarrow> real" where
  "rd_ex k = mean_gen"

definition rd_ex2 :: "nat \<Rightarrow> real \<Rightarrow> real \<Rightarrow> real" where
  "rd_ex2 k mean std_dev = (if k < 2 then mean else mean + std_dev)"

section \<open>Flags and the cells of one frontier\<close>

lemma test_flag_update:
  "test_flag (flags[c := True]) i = (test_flag flags i \<or> i = c)"
  by (cases "i = c") (auto simp: test_flag_def)

lemma unflagged_update: "unflagged (flags[c := True]) = unflagged flags - {c}"
  by (auto simp: unflagged_def test_flag_update)

lemma isNewFrontierCell_unflagged:
  "isNewFrontierCell fs c ff \<Longrightarrow> c \<in> unflagged ff"
  by (auto simp: isNewFrontierCell_def unflagged_def split: if_splits)

lemma buildNewFrontier_for_cells:
  "buildNewFrontier_for fs reference nbrs (bfs, ff, out) = (bfs', ff', out')
   \<Longrightarrow> \<exists>cs. bfs' = bfs @ cs \<and> out' = fold (addCell (costmap fs) reference) cs out
            \<and> distinct cs \<and> set cs \<subseteq> unflagged ff
            \<and> unflagged ff' = unflagged ff - set cs \<and> length ff' = length ff"
proof (induction nbrs arbitrary: bfs ff out)
  case Nil
  then show ?case by simp
next
  case (Cons nbr nbrs)
  show ?case
  proof (cases "isNewFrontierCell fs nbr ff")
    case True
    then have nbr: "nbr \<in> unflagged ff" by (rule isNewFrontierCell_unflagged)
    from Cons.prems True
    have "buildNewFrontier_for fs reference nbrs
            (bfs @ [nbr], ff[nbr := True], addCell (costmap fs) reference nbr out)
          = (bfs', ff', out')" by simp
    from Cons.IH [OF this] obtain cs where cs:
      "bfs' = (bfs @ [nbr]) @ cs"
      "out' = fold (addCell (costmap fs) reference) cs (addCell (costmap fs) reference nbr out)"
      "distinct cs" "set cs \<subseteq> unflagged (ff[nbr := True])"
      "unflagged ff' = unflagged (ff[nbr := True]) - set cs"
      "length ff' = length (ff[nbr := True])" by blast
    have "bfs' = bfs @ (nbr # cs)" using cs(1) by simp
    moreover have "out' = fold (addCell (costmap fs) reference) (nbr # cs) out"
      using cs(2) by simp
    moreover have "distinct (nbr # cs)" using cs(3,4) by (auto simp: unflagged_update)
    moreover have "set (nbr # cs) \<subseteq> unflagged ff"
      using cs(4) nbr by (auto simp: unflagged_update)
    moreover have "unflagged ff' = unflagged ff - set (nbr # cs)"
      using cs(5) by (auto simp: unflagged_update)
    moreover have "length ff' = length ff" using cs(6) by simp
    ultimately show ?thesis by blast
  next
    case False
    with Cons.prems
    have "buildNewFrontier_for fs reference nbrs (bfs, ff, out) = (bfs', ff', out')" by simp
    from Cons.IH [OF this] show ?thesis .
  qed
qed

lemma buildNewFrontier_while_cells:
  "buildNewFrontier_while fs reference bfs ff out = (ff', out')
   \<Longrightarrow> \<exists>cs. out' = fold (addCell (costmap fs) reference) cs out
            \<and> distinct cs \<and> set cs \<subseteq> unflagged ff
            \<and> unflagged ff' = unflagged ff - set cs \<and> length ff' = length ff"
proof (induction fs reference bfs ff out rule: buildNewFrontier_while.induct)
  case (1 fs reference ff out)
  then have "out' = fold (addCell (costmap fs) reference) [] out \<and> distinct ([]::nat list)
     \<and> set [] \<subseteq> unflagged ff \<and> unflagged ff' = unflagged ff - set [] \<and> length ff' = length ff"
    by simp
  then show ?case by blast
next
  case (2 fs reference idx bfs ff out)
  obtain bfs1 ff1 out1 where step:
    "buildNewFrontier_for fs reference (nhood8 (costmap fs) idx) (bfs, ff, out)
     = (bfs1, ff1, out1)" by (metis prod_cases3)
  from buildNewFrontier_for_cells [OF step] obtain cs1 where cs1:
    "out1 = fold (addCell (costmap fs) reference) cs1 out" "distinct cs1"
    "set cs1 \<subseteq> unflagged ff" "unflagged ff1 = unflagged ff - set cs1"
    "length ff1 = length ff" by blast
  from "2.prems" step
  have "buildNewFrontier_while fs reference bfs1 ff1 out1 = (ff', out')" by simp
  from "2.IH" [OF step [symmetric] refl this] obtain cs2 where cs2:
    "out' = fold (addCell (costmap fs) reference) cs2 out1" "distinct cs2"
    "set cs2 \<subseteq> unflagged ff1" "unflagged ff' = unflagged ff1 - set cs2"
    "length ff' = length ff1" by blast
  have "out' = fold (addCell (costmap fs) reference) (cs1 @ cs2) out"
    using cs1(1) cs2(1) by simp
  moreover have "distinct (cs1 @ cs2)" using cs1(2,4) cs2(2,3) by auto
  moreover have "set (cs1 @ cs2) \<subseteq> unflagged ff" using cs1(3,4) cs2(3) by auto
  moreover have "unflagged ff' = unflagged ff - set (cs1 @ cs2)"
    using cs1(4) cs2(4) by auto
  moreover have "length ff' = length ff" using cs1(5) cs2(5) by simp
  ultimately show ?case by blast
qed


lemma addCell_fields:
  "points (addCell cm r c out) = points out @ [cellToWorld cm c]"
  "size_f (addCell cm r c out) = size_f out + 1"
  "initial (addCell cm r c out) = initial out"
  "cost (addCell cm r c out) = cost out"
  "centroid (addCell cm r c out) =
     \<lparr>px = px (centroid out) + px (cellToWorld cm c),
      py = py (centroid out) + py (cellToWorld cm c)\<rparr>"
  by (simp_all add: addCell_def Let_def)

lemma fold_addCell_fields:
  "points (fold (addCell cm r) cs out) = points out @ map (cellToWorld cm) cs"
  "size_f (fold (addCell cm r) cs out) = size_f out + length cs"
  "initial (fold (addCell cm r) cs out) = initial out"
  "cost (fold (addCell cm r) cs out) = cost out"
  "centroid (fold (addCell cm r) cs out) =
     \<lparr>px = px (centroid out) + sum_list (map (\<lambda>c. px (cellToWorld cm c)) cs),
      py = py (centroid out) + sum_list (map (\<lambda>c. py (cellToWorld cm c)) cs)\<rparr>"
  by (induction cs arbitrary: out; simp add: addCell_fields add.assoc)+

lemma buildNewFrontier_cells:
  assumes "buildNewFrontier fs c r ff = (f, ff')"
  shows "\<exists>cs. distinct cs \<and> set cs \<subseteq> unflagged ff
           \<and> unflagged ff' = unflagged ff - set cs \<and> length ff' = length ff
           \<and> points f = map (cellToWorld (costmap fs)) cs
           \<and> initial f = cellToWorld (costmap fs) c
           \<and> size_f f = length cs + 1
           \<and> centroid f =
               \<lparr>px = sum_list (map (\<lambda>c. px (cellToWorld (costmap fs) c)) cs)
                        / real (length cs + 1),
                py = sum_list (map (\<lambda>c. py (cellToWorld (costmap fs) c)) cs)
                        / real (length cs + 1)\<rparr>"
proof -
  define out0 where "out0 = \<lparr>size_f = 1, min_distance = PosInf, cost = Finite 0,
                     initial = cellToWorld (costmap fs) c,
                     centroid = Point0, middle = Point0, points = []\<rparr>"
  obtain ff1 out1 where w:
    "buildNewFrontier_while fs (cellToWorld (costmap fs) r) [c] ff out0 = (ff1, out1)"
    by (metis surj_pair)
  from assms w have f: "f = out1\<lparr>centroid :=
                 \<lparr>px = px (centroid out1) / real (size_f out1),
                  py = py (centroid out1) / real (size_f out1)\<rparr>\<rparr>" and ff': "ff' = ff1"
    by (simp_all add: buildNewFrontier_def out0_def Let_def)
  from buildNewFrontier_while_cells [OF w] obtain cs where cs:
    "out1 = fold (addCell (costmap fs) (cellToWorld (costmap fs) r)) cs out0"
    "distinct cs" "set cs \<subseteq> unflagged ff" "unflagged ff1 = unflagged ff - set cs"
    "length ff1 = length ff" by blast
  have "points f = map (cellToWorld (costmap fs)) cs"
    by (simp add: f cs(1) fold_addCell_fields out0_def)
  moreover have "initial f = cellToWorld (costmap fs) c"
    by (simp add: f cs(1) fold_addCell_fields out0_def)
  moreover have "size_f f = length cs + 1"
    by (simp add: f cs(1) fold_addCell_fields out0_def)
  moreover have "centroid f =
               \<lparr>px = sum_list (map (\<lambda>c. px (cellToWorld (costmap fs) c)) cs)
                        / real (length cs + 1),
                py = sum_list (map (\<lambda>c. py (cellToWorld (costmap fs) c)) cs)
                        / real (length cs + 1)\<rparr>"
    by (simp add: f cs(1) fold_addCell_fields out0_def Point0_def)
  ultimately show ?thesis using cs(2-5) ff' by blast
qed

lemma cells_inv_mono:
  "cells_inv cm ff fl \<Longrightarrow> unflagged ff' \<subseteq> unflagged ff \<Longrightarrow> cells_inv cm ff' fl"
  unfolding cells_inv_def by blast

lemma cells_inv_build:
  assumes inv: "cells_inv (costmap fs) ff fl"
    and new: "isNewFrontierCell fs nbr ff"
    and b: "buildNewFrontier fs nbr pos (ff[nbr := True]) = (f, ff')"
  shows "cells_inv (costmap fs) ff' fl" "cells_inv (costmap fs) ff' (fl @ [f])"
proof -
  from inv obtain css where css:
    "list_all2 (\<lambda>f cs. member_points f = map (cellToWorld (costmap fs)) cs) fl css"
    "distinct (concat css)" "set (concat css) \<inter> unflagged ff = {}"
    unfolding cells_inv_def by blast
  from buildNewFrontier_cells [OF b] obtain cs where cs:
    "distinct cs" "set cs \<subseteq> unflagged (ff[nbr := True])"
    "unflagged ff' = unflagged (ff[nbr := True]) - set cs"
    "points f = map (cellToWorld (costmap fs)) cs"
    "initial f = cellToWorld (costmap fs) nbr" by blast
  have nbr: "nbr \<in> unflagged ff" using new by (rule isNewFrontierCell_unflagged)
  have sub: "unflagged ff' \<subseteq> unflagged ff" using cs(3) by (auto simp: unflagged_update)
  show "cells_inv (costmap fs) ff' fl" using inv sub by (rule cells_inv_mono)
  have m: "member_points f = map (cellToWorld (costmap fs)) (nbr # cs)"
    by (simp add: member_points_def cs(4,5))
  have "list_all2 (\<lambda>f cs. member_points f = map (cellToWorld (costmap fs)) cs)
          (fl @ [f]) (css @ [nbr # cs])"
    using css(1) m by (simp add: list_all2_appendI)
  moreover have "distinct (concat (css @ [nbr # cs]))"
    using css(2,3) cs(1,2) nbr by (auto simp: unflagged_update)
  moreover have "set (concat (css @ [nbr # cs])) \<inter> unflagged ff' = {}"
    using css(3) cs(3) sub by (auto simp: unflagged_update)
  ultimately show "cells_inv (costmap fs) ff' (fl @ [f])"
    unfolding cells_inv_def by blast
qed

lemma searchFrom_for_cells_inv:
  "searchFrom_for fs pos idx nbrs (bfs, vf, ff, fl) = (bfs', vf', ff', fl')
   \<Longrightarrow> cells_inv (costmap fs) ff fl \<Longrightarrow> cells_inv (costmap fs) ff' fl'"
proof (induction nbrs arbitrary: bfs vf ff fl)
  case Nil
  then show ?case by simp
next
  case (Cons nbr nbrs)
  show ?case
  proof (cases "map_cell fs nbr \<le> map_cell fs idx \<and> \<not> test_flag vf nbr")
    case True
    with Cons.prems(1)
    have "searchFrom_for fs pos idx nbrs (bfs @ [nbr], vf[nbr := True], ff, fl)
          = (bfs', vf', ff', fl')" by simp
    from Cons.IH [OF this Cons.prems(2)] show ?thesis .
  next
    case False
    show ?thesis
    proof (cases "isNewFrontierCell fs nbr ff")
      case new: True
      obtain f ff1 where b: "buildNewFrontier fs nbr pos (ff[nbr := True]) = (f, ff1)"
        by (metis surj_pair)
      note inv = cells_inv_build [OF Cons.prems(2) new b]
      show ?thesis
      proof (cases "min_frontier_size fs \<le> real (size_f f) * resolution (costmap fs)")
        case True
        with Cons.prems(1) False new b
        have "searchFrom_for fs pos idx nbrs (bfs, vf, ff1, fl @ [f]) = (bfs', vf', ff', fl')"
          by simp
        from Cons.IH [OF this inv(2)] show ?thesis .
      next
        case small: False
        with Cons.prems(1) False new b
        have "searchFrom_for fs pos idx nbrs (bfs, vf, ff1, fl) = (bfs', vf', ff', fl')"
          by simp
        from Cons.IH [OF this inv(1)] show ?thesis .
      qed
    next
      case old: False
      with Cons.prems(1) False
      have "searchFrom_for fs pos idx nbrs (bfs, vf, ff, fl) = (bfs', vf', ff', fl')"
        by simp
      from Cons.IH [OF this Cons.prems(2)] show ?thesis .
    qed
  qed
qed

lemma searchFrom_while_cells_inv:
  "cells_inv (costmap fs) ff fl
   \<Longrightarrow> \<exists>ff'. cells_inv (costmap fs) ff' (searchFrom_while fs pos bfs vf ff fl)"
proof (induction fs pos bfs vf ff fl rule: searchFrom_while.induct)
  case (1 fs pos vf ff fl)
  then show ?case by auto
next
  case (2 fs pos idx bfs vf ff fl)
  obtain bfs1 vf1 ff1 fl1 where step:
    "searchFrom_for fs pos idx (nhood4 (costmap fs) idx) (bfs, vf, ff, fl)
     = (bfs1, vf1, ff1, fl1)" by (metis prod_cases4)
  from searchFrom_for_cells_inv [OF step "2.prems"]
  have "cells_inv (costmap fs) ff1 fl1" .
  from "2.IH" [OF step [symmetric] refl refl this] step show ?case by simp
qed

section \<open>Coordinates, members and sizes\<close>

lemma indexToCells_mod: "indexToCells cm a = (a mod size_x cm, a div size_x cm)"
  by (simp add: indexToCells_def Let_def minus_div_mult_eq_mod)

lemma cellToWorld_inj:
  assumes "0 < size_x cm" "resolution cm \<noteq> 0" "cellToWorld cm a = cellToWorld cm b"
  shows "a = b"
proof -
  from assms(3) have
    "(real (a mod size_x cm) + 0.5) * resolution cm = (real (b mod size_x cm) + 0.5) * resolution cm"
    "(real (a div size_x cm) + 0.5) * resolution cm = (real (b div size_x cm) + 0.5) * resolution cm"
    by (simp_all add: cellToWorld_def indexToCells_mod mapToWorld_def)
  with assms(2) have "a mod size_x cm = b mod size_x cm" "a div size_x cm = b div size_x cm"
    by simp_all
  then show ?thesis by (metis div_mult_mod_eq)
qed

lemma cellToWorld_inj_on:
  "0 < size_x cm \<Longrightarrow> resolution cm \<noteq> 0 \<Longrightarrow> inj_on (cellToWorld cm) A"
  by (rule inj_onI) (rule cellToWorld_inj)

lemma cells_inv_distinct:
  assumes "cells_inv cm ff fl" "0 < size_x cm" "resolution cm \<noteq> 0"
  shows "distinct (concat (map member_points fl))"
proof -
  from assms(1) obtain css where css:
    "list_all2 (\<lambda>f cs. member_points f = map (cellToWorld cm) cs) fl css"
    "distinct (concat css)" unfolding cells_inv_def by blast
  from css(1) have "map member_points fl = map (map (cellToWorld cm)) css"
    by (induction rule: list_all2_induct) simp_all
  then have "concat (map member_points fl) = map (cellToWorld cm) (concat css)"
    by (simp add: map_concat)
  with css(2) cellToWorld_inj_on [OF assms(2,3)] show ?thesis
    by (simp add: distinct_map)
qed

lemma setCosts_fields:
  "map member_points (fst (setCosts fs position rd k fl st)) = map member_points fl"
  "map size_f (fst (setCosts fs position rd k fl st)) = map size_f fl"
  by (induction fl arbitrary: k st; simp add: member_points_def case_prod_beta)+

lemma set_insert_by_cost: "set (insert_by_cost f gs) = insert f (set gs)"
  by (induction gs) auto

lemma set_sort_by_cost: "set (sort_by_cost fl) = set fl"
  by (induction fl) (simp_all add: sort_by_cost_def set_insert_by_cost)

lemma distinct_insert_by_cost:
  "distinct (concat (map m (insert_by_cost f gs))) = distinct (concat (map m (f # gs)))"
  by (induction gs) (auto simp: set_insert_by_cost)

lemma distinct_sort_by_cost:
  "distinct (concat (map m (sort_by_cost fl))) = distinct (concat (map m fl))"
proof (induction fl)
  case Nil
  show ?case by (simp add: sort_by_cost_def)
next
  case (Cons f fl)
  have "distinct (concat (map m (sort_by_cost (f # fl))))
        = distinct (concat (map m (f # sort_by_cost fl)))"
    by (simp add: sort_by_cost_def distinct_insert_by_cost)
  also have "\<dots> = distinct (concat (map m (f # fl)))"
    using Cons.IH set_sort_by_cost [of fl] by simp
  finally show ?case .
qed

lemma distinct_concat_nth:
  "distinct (concat xss) \<Longrightarrow> i < j \<Longrightarrow> j < length xss \<Longrightarrow> set (xss ! i) \<inter> set (xss ! j) = {}"
proof (induction xss arbitrary: i j)
  case Nil
  then show ?case by simp
next
  case (Cons xs xss)
  from Cons.prems obtain j' where j: "j = Suc j'" by (cases j) auto
  show ?case
  proof (cases i)
    case 0
    from Cons.prems j have "xss ! j' \<in> set xss" by simp
    with Cons.prems(1) 0 j show ?thesis by auto
  next
    case (Suc i')
    with Cons.prems j Cons.IH [of i' j'] show ?thesis by simp
  qed
qed

lemma searchFrom_Some:
  assumes "worldToMap (costmap fs) (px position) (py position) = Some (mx, my)"
  shows "fst (searchFrom fs position rd st) =
           sort_by_cost (fst (setCosts fs position rd 0
             (search_list fs (getIndex (costmap fs) mx my)) st))"
  using assms unfolding searchFrom_def search_list_def search_start_def Let_def
  by (simp split: option.splits prod.splits del: searchFrom_while.simps)

lemma searchFrom_None:
  assumes "worldToMap (costmap fs) (px position) (py position) = None"
  shows "searchFrom fs position rd st =
           ([], st, [ROS_ERROR ''Robot out of costmap bounds, cannot search for frontiers''])"
  using assms by (simp add: searchFrom_def)

lemma worldToMap_size: "worldToMap cm wx wy = Some (mx, my) \<Longrightarrow> 0 < size_x cm"
  by (auto simp: worldToMap_def Let_def split: if_splits option.splits)

lemma searchFrom_distinct:
  assumes "resolution (costmap fs) \<noteq> 0"
  shows "distinct (concat (map member_points (fst (searchFrom fs position rd st))))"
proof (cases "worldToMap (costmap fs) (px position) (py position)")
  case None
  then show ?thesis by (simp add: searchFrom_None)
next
  case (Some a)
  obtain mx my where a: "a = (mx, my)" by (cases a)
  from Some a worldToMap_size have sx: "0 < size_x (costmap fs)" by blast
  from searchFrom_Some [of fs position mx my rd st] Some a have
    r: "fst (searchFrom fs position rd st) =
           sort_by_cost (fst (setCosts fs position rd 0
             (search_list fs (getIndex (costmap fs) mx my)) st))"
    by blast
  have "cells_inv (costmap fs) (replicate (size_x (costmap fs) * size_y (costmap fs)) False) []"
    by (simp add: cells_inv_def)
  from searchFrom_while_cells_inv [OF this] obtain ff' where
    "cells_inv (costmap fs) ff' (search_list fs (getIndex (costmap fs) mx my))"
    unfolding search_list_def by blast
  from cells_inv_distinct [OF this sx assms] show ?thesis
    by (simp add: r distinct_sort_by_cost setCosts_fields)
qed

lemma searchFrom_for_sizes:
  "searchFrom_for fs pos idx nbrs (bfs, vf, ff, fl) = (bfs', vf', ff', fl')
   \<Longrightarrow> \<forall>f\<in>set fl. min_frontier_size fs \<le> real (size_f f) * resolution (costmap fs)
   \<Longrightarrow> \<forall>f\<in>set fl'. min_frontier_size fs \<le> real (size_f f) * resolution (costmap fs)"
proof (induction nbrs arbitrary: bfs vf ff fl)
  case Nil
  then show ?case by simp
next
  case (Cons nbr nbrs)
  show ?case
  proof (cases "map_cell fs nbr \<le> map_cell fs idx \<and> \<not> test_flag vf nbr")
    case True
    with Cons.prems(1)
    have "searchFrom_for fs pos idx nbrs (bfs @ [nbr], vf[nbr := True], ff, fl)
          = (bfs', vf', ff', fl')" by simp
    from Cons.IH [OF this Cons.prems(2)] show ?thesis .
  next
    case False
    show ?thesis
    proof (cases "isNewFrontierCell fs nbr ff")
      case new: True
      obtain f ff1 where b: "buildNewFrontier fs nbr pos (ff[nbr := True]) = (f, ff1)"
        by (metis surj_pair)
      show ?thesis
      proof (cases "min_frontier_size fs \<le> real (size_f f) * resolution (costmap fs)")
        case True
        with Cons.prems(1) False new b
        have s: "searchFrom_for fs pos idx nbrs (bfs, vf, ff1, fl @ [f]) = (bfs', vf', ff', fl')"
          by simp
        from True Cons.prems(2)
        have "\<forall>g\<in>set (fl @ [f]).
                min_frontier_size fs \<le> real (size_f g) * resolution (costmap fs)" by simp
        from Cons.IH [OF s this] show ?thesis .
      next
        case small: False
        with Cons.prems(1) False new b
        have "searchFrom_for fs pos idx nbrs (bfs, vf, ff1, fl) = (bfs', vf', ff', fl')"
          by simp
        from Cons.IH [OF this Cons.prems(2)] show ?thesis .
      qed
    next
      case old: False
      with Cons.prems(1) False
      have "searchFrom_for fs pos idx nbrs (bfs, vf, ff, fl) = (bfs', vf', ff', fl')"
        by simp
      from Cons.IH [OF this Cons.prems(2)] show ?thesis .
    qed
  qed
qed

lemma searchFrom_while_sizes:
  "\<forall>f\<in>set fl. min_frontier_size fs \<le> real (size_f f) * resolution (costmap fs)
   \<Longrightarrow> \<forall>f\<in>set (searchFrom_while fs pos bfs vf ff fl).
         min_frontier_size fs \<le> real (size_f f) * resolution (costmap fs)"
proof (induction fs pos bfs vf ff fl rule: searchFrom_while.induct)
  case (1 fs pos vf ff fl)
  then show ?case by simp
next
  case (2 fs pos idx bfs vf ff fl)
  obtain bfs1 vf1 ff1 fl1 where step:
    "searchFrom_for fs pos idx (nhood4 (costmap fs) idx) (bfs, vf, ff, fl)
     = (bfs1, vf1, ff1, fl1)" by (metis prod_cases4)
  note searchFrom_for_sizes [OF step "2.prems"]
  from "2.IH" [OF step [symmetric] refl refl this] step show ?case by simp
qed

lemma search_list_sizes:
  "f \<in> set (search_list fs pos)
   \<Longrightarrow> min_frontier_size fs \<le> real (size_f f) * resolution (costmap fs)"
proof -
  assume f: "f \<in> set (search_list fs pos)"
  have "\<forall>f\<in>set ([]::Frontier list).
          min_frontier_size fs \<le> real (size_f f) * resolution (costmap fs)" by simp
  from searchFrom_while_sizes [OF this] f show ?thesis
    unfolding search_list_def by blast
qed

lemma setCosts_size_f:
  "f \<in> set (fst (setCosts fs position rd k fl st)) \<Longrightarrow> \<exists>g\<in>set fl. size_f f = size_f g"
proof -
  assume "f \<in> set (fst (setCosts fs position rd k fl st))"
  then have "size_f f \<in> set (map size_f (fst (setCosts fs position rd k fl st)))"
    by simp
  then have "size_f f \<in> set (map size_f fl)" by (simp only: setCosts_fields)
  then show ?thesis by auto
qed

section \<open>The example evaluated\<close>

lemmas eval_defs = nhood8_def nhood4_def isNewFrontierCell_def
    test_flag_def map_cell_def NO_INFORMATION_def FREE_SPACE_def addCell_def cellToWorld_def
    indexToCells_def mapToWorld_def Point0_def Let_def worldToMap_def double_to_int_def int_to_uint_def
    getIndex_def nearestCell_def buildNewFrontier_def

lemma sqrt_less_3: "sqrt x < 3 \<longleftrightarrow> x < 9"
proof -
  have "sqrt 9 = 3" using real_sqrt_abs [of 3] by simp
  then show ?thesis using real_sqrt_less_iff [of x 9] by simp
qed

lemma sqrt_less_6: "sqrt x < 6 \<longleftrightarrow> x < 36"
proof -
  have "sqrt 36 = 6" using real_sqrt_abs [of 6] by simp
  then show ?thesis using real_sqrt_less_iff [of x 36] by simp
qed

lemma replicate_9: "replicate 9 x = [x, x, x, x, x, x, x, x, x]"
  by (simp add: numeral_eq_Suc)

lemma worldToMap_ex: "worldToMap grid_ex (px robot_ex) (py robot_ex) = Some (1, 1)"
  by (simp add: worldToMap_def grid_ex_def robot_ex_def double_to_int_def int_to_uint_def)

lemma search_list_ex: "search_list (search_ex ps) 4 = [pair_ex, single_ex]"
  by (simp add: search_list_def search_start_def search_ex_def grid_ex_def eval_defs
      replicate_9 pair_ex_def single_ex_def)

lemma searchFrom_ex:
  "searchFrom (search_ex 1) robot_ex rd_ex CostState0 =
     ([pair_ex\<lparr>cost := Finite (sqrt 2 - 2)\<rparr>, single_ex\<lparr>cost := PosInf\<rparr>], CostState0, [])"
  apply (simp add: searchFrom_def search_ex_def grid_ex_def robot_ex_def eval_defs frontierCost_def
      CostState0_def sort_by_cost_def dsub_def sqrt_less_3 sqrt_less_6 power2_eq_square
      replicate_9 pair_ex_def single_ex_def rd_ex_def mean_gen_def)
  done

lemma searchFrom_ex0:
  "searchFrom (search_ex 0) robot_ex rd_ex CostState0 =
     ([pair_ex\<lparr>cost := Finite (- 2)\<rparr>, single_ex\<lparr>cost := NaN\<rparr>], CostState0, [])"
  apply (simp add: searchFrom_def search_ex_def grid_ex_def robot_ex_def eval_defs frontierCost_def
      CostState0_def sort_by_cost_def dsub_def sqrt_less_3 sqrt_less_6 power2_eq_square
      replicate_9 pair_ex_def single_ex_def rd_ex_def mean_gen_def)
  done

section \<open>Statistics of a frontier and the order of costs\<close>

lemma addCell_nearest:
  assumes "nearest_ok r out"
  shows "nearest_ok r (addCell cm r c out)"
proof (cases "points out = []")
  case True
  with assms have "min_distance out = PosInf" by (simp add: nearest_ok_def)
  with True show ?thesis
    by (simp add: nearest_ok_def addCell_def Let_def dist_to_def)
next
  case False
  with assms have m: "middle out \<in> set (points out)"
    "min_distance out = Finite (dist_to r (middle out))"
    "\<forall>q\<in>set (points out). dist_to r (middle out) \<le> dist_to r q"
    by (simp_all add: nearest_ok_def)
  show ?thesis
  proof (cases "dist_to r (cellToWorld cm c) < dist_to r (middle out)")
    case True
    with m show ?thesis
      by (auto simp: nearest_ok_def addCell_def Let_def dist_to_def)
  next
    case False
    with m show ?thesis
      by (auto simp: nearest_ok_def addCell_def Let_def dist_to_def)
  qed
qed

lemma fold_addCell_nearest:
  "nearest_ok r out \<Longrightarrow> nearest_ok r (fold (addCell cm r) cs out)"
  by (induction cs arbitrary: out) (simp_all add: addCell_nearest)

lemma buildNewFrontier_while_fold:
  "\<exists>cs. snd (buildNewFrontier_while fs r bfs ff out) = fold (addCell (costmap fs) r) cs out"
  using buildNewFrontier_while_cells [of fs r bfs ff out] by (metis surjective_pairing)

lemma buildNewFrontier_built:
  "nearest_ok (cellToWorld (costmap fs) reference)
     (fst (buildNewFrontier fs initial_cell reference flags))"
  "centroid_ok (fst (buildNewFrontier fs initial_cell reference flags))"
proof -
  define out0 where "out0 = \<lparr>size_f = 1, min_distance = PosInf, cost = Finite 0,
                     initial = cellToWorld (costmap fs) initial_cell,
                     centroid = Point0, middle = Point0, points = []\<rparr>"
  define r where "r = cellToWorld (costmap fs) reference"
  obtain cs where cs:
    "snd (buildNewFrontier_while fs r [initial_cell] flags out0)
     = fold (addCell (costmap fs) r) cs out0"
    using buildNewFrontier_while_fold by blast
  define out1 where "out1 = fold (addCell (costmap fs) r) cs out0"
  have f: "fst (buildNewFrontier fs initial_cell reference flags) =
       out1\<lparr>centroid := \<lparr>px = px (centroid out1) / real (size_f out1),
                          py = py (centroid out1) / real (size_f out1)\<rparr>\<rparr>"
    using cs by (simp add: buildNewFrontier_def out0_def r_def out1_def Let_def case_prod_beta)
  have "nearest_ok r out0" by (simp add: nearest_ok_def out0_def)
  then have "nearest_ok r out1" unfolding out1_def by (rule fold_addCell_nearest)
  then show "nearest_ok (cellToWorld (costmap fs) reference)
     (fst (buildNewFrontier fs initial_cell reference flags))"
    by (simp add: f nearest_ok_def r_def)
  show "centroid_ok (fst (buildNewFrontier fs initial_cell reference flags))"
    by (simp add: f centroid_ok_def out1_def fold_addCell_fields out0_def Point0_def comp_def)
qed

lemma searchFrom_for_built:
  assumes built: "\<And>c flags. P (fst (buildNewFrontier fs c pos flags))"
  shows "searchFrom_for fs pos idx nbrs (bfs, vf, ff, fl) = (bfs', vf', ff', fl')
         \<Longrightarrow> \<forall>f\<in>set fl. P f \<Longrightarrow> \<forall>f\<in>set fl'. P f"
proof (induction nbrs arbitrary: bfs vf ff fl)
  case Nil
  then show ?case by simp
next
  case (Cons nbr nbrs)
  obtain f ff1 where b: "buildNewFrontier fs nbr pos (ff[nbr := True]) = (f, ff1)"
    by (metis surj_pair)
  with built [of nbr "ff[nbr := True]"] have "P f" by simp
  with Cons.prems(2) have all: "\<forall>g\<in>set (fl @ [f]). P g" by simp
  from Cons.prems(1) b consider
    "searchFrom_for fs pos idx nbrs (bfs @ [nbr], vf[nbr := True], ff, fl) = (bfs', vf', ff', fl')"
    | "searchFrom_for fs pos idx nbrs (bfs, vf, ff1, fl @ [f]) = (bfs', vf', ff', fl')"
    | "searchFrom_for fs pos idx nbrs (bfs, vf, ff1, fl) = (bfs', vf', ff', fl')"
    | "searchFrom_for fs pos idx nbrs (bfs, vf, ff, fl) = (bfs', vf', ff', fl')"
    by (auto split: if_splits)
  then show ?case
  proof cases
    case 1
    from Cons.IH [OF this Cons.prems(2)] show ?thesis .
  next
    case 2
    from Cons.IH [OF this all] show ?thesis .
  next
    case 3
    from Cons.IH [OF this Cons.prems(2)] show ?thesis .
  next
    case 4
    from Cons.IH [OF this Cons.prems(2)] show ?thesis .
  qed
qed

lemma searchFrom_while_built:
  assumes built: "\<And>c flags. P (fst (buildNewFrontier fs c pos flags))"
  shows "\<forall>f\<in>set fl. P f \<Longrightarrow> \<forall>f\<in>set (searchFrom_while fs pos bfs vf ff fl). P f"
  using built
proof (induction fs pos bfs vf ff fl rule: searchFrom_while.induct)
  case (1 fs pos vf ff fl)
  then show ?case by simp
next
  case (2 fs pos idx bfs vf ff fl)
  obtain bfs1 vf1 ff1 fl1 where step:
    "searchFrom_for fs pos idx (nhood4 (costmap fs) idx) (bfs, vf, ff, fl)
     = (bfs1, vf1, ff1, fl1)" by (metis prod_cases4)
  have "\<forall>f\<in>set fl1. P f"
    using searchFrom_for_built [of P fs pos, OF "2.prems"(2) step "2.prems"(1)] .
  from "2.IH" [OF step [symmetric] refl refl this "2.prems"(2)] step show ?case by simp
qed

lemma search_list_built:
  assumes "\<And>c flags. P (fst (buildNewFrontier fs c pos flags))"
    and "f \<in> set (search_list fs pos)"
  shows "P f"
proof -
  have "\<forall>f\<in>set ([]::Frontier list). P f" by simp
  from searchFrom_while_built [of P fs pos, OF assms(1) this] assms(2) show ?thesis
    unfolding search_list_def by blast
qed

lemma setCosts_elem:
  "f \<in> set (fst (setCosts fs position rd k fl st))
   \<Longrightarrow> \<exists>g\<in>set fl. \<exists>n st'. f = g\<lparr>cost := fst (frontierCost fs g position n st')\<rparr>"
proof (induction fl arbitrary: k st)
  case Nil
  then show ?case by simp
next
  case (Cons g fl)
  from Cons.prems have
    "f = g\<lparr>cost := fst (frontierCost fs g position (rd k) st)\<rparr>
     \<or> f \<in> set (fst (setCosts fs position rd (Suc k) fl
                        (fst (snd (frontierCost fs g position (rd k) st)))))"
    by (simp add: case_prod_beta)
  then show ?case
  proof
    assume "f = g\<lparr>cost := fst (frontierCost fs g position (rd k) st)\<rparr>"
    then show ?thesis by auto
  next
    assume "f \<in> set (fst (setCosts fs position rd (Suc k) fl
                        (fst (snd (frontierCost fs g position (rd k) st)))))"
    from Cons.IH [OF this] show ?thesis by auto
  qed
qed

text \<open>What every returned frontier carries: the statistics are those of the points alone.\<close>

lemma searchFrom_built:
  assumes "worldToMap (costmap fs) (px position) (py position) = Some (mx, my)"
    and "f \<in> set (fst (searchFrom fs position rd st))"
  shows "centroid_ok f"
    and "nearest_ok (cellToWorld (costmap fs) (getIndex (costmap fs) mx my)) f"
proof -
  from assms(2) searchFrom_Some [OF assms(1), of rd st]
  have "f \<in> set (fst (setCosts fs position rd 0
                        (search_list fs (getIndex (costmap fs) mx my)) st))"
    by (simp add: set_sort_by_cost)
  from setCosts_elem [OF this] obtain g c where
    g: "g \<in> set (search_list fs (getIndex (costmap fs) mx my))" and f: "f = g\<lparr>cost := c\<rparr>"
    by blast
  have "centroid_ok g"
    using search_list_built [of centroid_ok fs, OF buildNewFrontier_built(2) g] .
  then show "centroid_ok f" by (simp add: f centroid_ok_def)
  have "nearest_ok (cellToWorld (costmap fs) (getIndex (costmap fs) mx my)) g"
    using search_list_built
      [of "nearest_ok (cellToWorld (costmap fs) (getIndex (costmap fs) mx my))" fs,
       OF buildNewFrontier_built(1) g] .
  then show "nearest_ok (cellToWorld (costmap fs) (getIndex (costmap fs) mx my)) f"
    by (simp add: f nearest_ok_def)
qed

lemma dle_if_not_dless: "\<not> dless a b \<Longrightarrow> a \<noteq> NaN \<Longrightarrow> b \<noteq> NaN \<Longrightarrow> dle b a"
  by (cases a; cases b) auto

lemma dle_if_dless: "dless a b \<Longrightarrow> dle a b"
  by (cases a; cases b) auto

lemma dle_trans: "dle a b \<Longrightarrow> dle b c \<Longrightarrow> dle a c"
  by (cases a; cases b; cases c) auto

lemma sorted_insert_by_cost:
  assumes "sorted_wrt (\<lambda>f g. dle (cost f) (cost g)) gs"
    and "\<forall>g\<in>set gs. cost g \<noteq> NaN" and "cost f \<noteq> NaN"
  shows "sorted_wrt (\<lambda>f g. dle (cost f) (cost g)) (insert_by_cost f gs)"
  using assms
proof (induction gs)
  case Nil
  then show ?case by simp
next
  case (Cons g gs)
  show ?case
  proof (cases "dless (cost g) (cost f)")
    case True
    then have "dle (cost g) (cost f)" by (rule dle_if_dless)
    with Cons True show ?thesis by (auto simp: set_insert_by_cost)
  next
    case False
    with Cons.prems have fg: "dle (cost f) (cost g)" by (simp add: dle_if_not_dless)
    have "dle (cost f) (cost h)" if "h \<in> set gs" for h
      using Cons.prems(1) that fg dle_trans by auto
    with Cons.prems(1) False fg show ?thesis by auto
  qed
qed

lemma sorted_sort_by_cost:
  "\<forall>f\<in>set fl. cost f \<noteq> NaN \<Longrightarrow> sorted_wrt (\<lambda>f g. dle (cost f) (cost g)) (sort_by_cost fl)"
proof (induction fl)
  case Nil
  show ?case by (simp add: sort_by_cost_def)
next
  case (Cons f fl)
  then have "sorted_wrt (\<lambda>f g. dle (cost f) (cost g)) (sort_by_cost fl)" by simp
  moreover have "\<forall>g\<in>set (sort_by_cost fl). cost g \<noteq> NaN"
    using Cons.prems by (simp add: set_sort_by_cost)
  moreover have "cost f \<noteq> NaN" using Cons.prems by simp
  ultimately have "sorted_wrt (\<lambda>f g. dle (cost f) (cost g)) (insert_by_cost f (sort_by_cost fl))"
    by (rule sorted_insert_by_cost)
  then show ?case by (simp add: sort_by_cost_def)
qed

lemma dadd_dsub_Finite_not_NaN: "x \<noteq> NaN \<Longrightarrow> dadd (dsub x (Finite a)) (Finite b) \<noteq> NaN"
  by (cases x) (simp_all add: dsub_def)

lemma dmul_scale_not_NaN:
  "a \<noteq> 0 \<Longrightarrow> b \<noteq> 0 \<Longrightarrow> m = PosInf \<or> (\<exists>d. m = Finite d)
   \<Longrightarrow> dmul (dmul (Finite a) m) (Finite b) \<noteq> NaN"
  by (auto split: if_splits)

lemma frontierCost_state:
  "fst (snd (frontierCost fs g pose n st)) =
     (if robot_human pose < 3 then st\<lparr>weight := 0\<rparr>
      else if robot_human pose < 6 \<and> \<not> flag st then st\<lparr>weight := 3, flag := True\<rparr>
      else st)"
  by (simp add: frontierCost_def robot_human_def dist_to_def avoid_point_def Let_def)

lemma frontierCost_cost:
  "fst (frontierCost fs g pose gen st) =
     dadd (dsub (dmul (dmul (Finite (potential_scale fs)) (min_distance g))
                      (Finite (resolution (costmap fs))))
                (Finite (gain_scale fs * real (size_f g) * resolution (costmap fs))))
          (Finite (weight (fst (snd (frontierCost fs g pose gen st)))
                     * (frontier_human g + gen 0 0.2) * resolution (costmap fs)))"
  by (simp add: frontierCost_def frontier_human_def dist_to_def avoid_point_def Let_def)

lemma frontierCost_not_NaN:
  assumes "potential_scale fs \<noteq> 0" "resolution (costmap fs) \<noteq> 0"
    and "min_distance g = PosInf \<or> (\<exists>d. min_distance g = Finite d)"
  shows "fst (frontierCost fs g pose n st) \<noteq> NaN"
proof -
  from dadd_dsub_Finite_not_NaN [OF dmul_scale_not_NaN [OF assms]] show ?thesis
    by (subst frontierCost_cost) blast
qed

text \<open>
  The list returned by \<open>searchFrom\<close> is in non-decreasing order of cost whenever no cost
  is NaN, which is so when neither the potential scale nor the resolution is 0.
\<close>

lemma searchFrom_sorted_unless_NaN:
  assumes "potential_scale fs \<noteq> 0" "resolution (costmap fs) \<noteq> 0"
  shows "sorted_wrt (\<lambda>f g. dle (cost f) (cost g)) (fst (searchFrom fs position rd st))"
proof (cases "worldToMap (costmap fs) (px position) (py position)")
  case None
  then show ?thesis by (simp add: searchFrom_None)
next
  case (Some a)
  obtain mx my where a: "a = (mx, my)" by (cases a)
  have "cost f \<noteq> NaN"
    if "f \<in> set (fst (setCosts fs position rd 0
                        (search_list fs (getIndex (costmap fs) mx my)) st))" for f
  proof -
    from setCosts_elem [OF that] obtain g n st' where
      g: "g \<in> set (search_list fs (getIndex (costmap fs) mx my))"
      and f: "f = g\<lparr>cost := fst (frontierCost fs g position n st')\<rparr>" by blast
    have "nearest_ok (cellToWorld (costmap fs) (getIndex (costmap fs) mx my)) g"
      using search_list_built
        [of "nearest_ok (cellToWorld (costmap fs) (getIndex (costmap fs) mx my))" fs,
         OF buildNewFrontier_built(1) g] .
    then have "min_distance g = PosInf \<or> (\<exists>d. min_distance g = Finite d)"
      by (auto simp: nearest_ok_def split: if_splits)
    from frontierCost_not_NaN [OF assms this] f show ?thesis by simp
  qed
  then show ?thesis
    using searchFrom_Some [of fs position mx my rd st] Some a
    by (simp add: sorted_sort_by_cost)
qed

lemma buildNewFrontier_for_none:
  "\<forall>nbr\<in>set nbrs. \<not> isNewFrontierCell fs nbr ff
   \<Longrightarrow> buildNewFrontier_for fs r nbrs (bfs, ff, out) = (bfs, ff, out)"
  by (induction nbrs) simp_all

section \<open>The state of the cost model\<close>

lemma scoreState_eq:
  "scoreState fs g pose n st =
     (if robot_human pose < 3 then st\<lparr>weight := 0\<rparr>
      else if robot_human pose < 6 \<and> \<not> flag st then st\<lparr>weight := 3, flag := True\<rparr>
      else st)"
  by (simp add: scoreState_def frontierCost_state)

lemma scoreState_idem:
  "scoreState fs g pose n (scoreState fs f pose m st) = scoreState fs f pose m st"
  by (simp add: scoreState_eq)

lemma scoreState_indep: "scoreState fs g pose n st = scoreState fs f pose m st"
  by (simp add: scoreState_eq)

lemma robot_human_far_ex: "robot_human far_ex = 4"
proof -
  have "robot_human far_ex = sqrt (4\<^sup>2)"
    by (simp add: robot_human_def dist_to_def avoid_point_def far_ex_def)
  then show ?thesis by simp
qed

lemma robot_human_near_ex: "robot_human near_ex = 2"
proof -
  have "robot_human near_ex = sqrt (2\<^sup>2)"
    by (simp add: robot_human_def dist_to_def avoid_point_def near_ex_def)
  then show ?thesis by simp
qed

lemma robot_human_robot_ex: "6 \<le> robot_human robot_ex"
proof -
  have "\<not> robot_human robot_ex < 6"
    by (simp add: robot_human_def dist_to_def avoid_point_def robot_ex_def sqrt_less_6
        power2_eq_square)
  then show ?thesis by simp
qed

lemma evaluations_latched_zero:
  "flag st \<Longrightarrow> weight st = 0 \<Longrightarrow> evaluations fs es st = st"
proof (induction es arbitrary: st)
  case Nil
  show ?case by simp
next
  case (Cons e es)
  obtain f pose n where e: "e = (f, pose, n)" by (cases e)
  from Cons.prems have "scoreState fs f pose n st = st" by (simp add: scoreState_eq)
  with Cons e show ?case by simp
qed

lemma evaluations_two_valued:
  "weight st = 0 \<or> (weight st = 3 \<and> flag st)
   \<Longrightarrow> weight (evaluations fs es st) = 0 \<or> (weight (evaluations fs es st) = 3 \<and> flag (evaluations fs es st))"
proof (induction es arbitrary: st)
  case Nil
  then show ?case by simp
next
  case (Cons e es)
  obtain f pose n where e: "e = (f, pose, n)" by (cases e)
  from Cons.prems have "weight (scoreState fs f pose n st) = 0
     \<or> (weight (scoreState fs f pose n st) = 3 \<and> flag (scoreState fs f pose n st))"
    by (auto simp: scoreState_eq)
  from Cons.IH [OF this] e show ?case by simp
qed

lemma frontierCost_formula:
  "fst (frontierCost fs g pose gen st) =
     cost_formula fs g (weight (scoreState fs g pose gen st)) (gen 0 0.2)"
  by (simp add: frontierCost_cost cost_formula_def scoreState_def frontier_human_def)


lemma frontierCost_weight:
  assumes "weight (scoreState fs f pose x st1) = weight (scoreState fs f pose x st2)"
    and "gen1 0 0.2 = gen2 0 0.2"
  shows "fst (frontierCost fs g pose gen1 st1) = fst (frontierCost fs g pose gen2 st2)"
proof -
  from assms(1)
  have "weight (scoreState fs g pose gen1 st1) = weight (scoreState fs g pose gen2 st2)"
    by (simp only: scoreState_indep [of fs g pose _ _ f x])
  with assms(2) show ?thesis by (simp only: frontierCost_formula)
qed

lemma setCosts_weight:
  "weight (scoreState fs f pose x st1) = weight (scoreState fs f pose x st2)
   \<Longrightarrow> \<forall>i<length fl. rda (k + i) 0 0.2 = rdb (k + i) 0 0.2
   \<Longrightarrow> fst (setCosts fs pose rda k fl st1) = fst (setCosts fs pose rdb k fl st2)"
proof (induction fl arbitrary: k st1 st2)
  case Nil
  show ?case by simp
next
  case (Cons g fl)
  from Cons.prems(2) have n: "rda k 0 0.2 = rdb k 0 0.2" by force
  have c: "fst (frontierCost fs g pose (rda k) st1) = fst (frontierCost fs g pose (rdb k) st2)"
    using Cons.prems(1) n by (rule frontierCost_weight)
  have w: "weight (scoreState fs f pose x (scoreState fs g pose (rda k) st1))
         = weight (scoreState fs f pose x (scoreState fs g pose (rdb k) st2))"
    using Cons.prems(1)
    by (simp only: scoreState_idem scoreState_indep [of fs g pose _ _ f x])
  have "\<forall>i<length fl. rda (Suc k + i) 0 0.2 = rdb (Suc k + i) 0 0.2"
  proof (intro allI impI)
    fix i assume "i < length fl"
    then have "Suc i < length (g # fl)" by simp
    with Cons.prems(2) have "rda (k + Suc i) 0 0.2 = rdb (k + Suc i) 0 0.2" by blast
    then show "rda (Suc k + i) 0 0.2 = rdb (Suc k + i) 0 0.2" by simp
  qed
  from Cons.IH [OF w this] c show ?case
    by (simp add: case_prod_beta scoreState_def)
qed

lemma length_setCosts: "length (fst (setCosts fs pose rd k fl st)) = length fl"
  by (induction fl arbitrary: k st) (simp_all add: case_prod_beta)

lemma length_insert_by_cost: "length (insert_by_cost f gs) = Suc (length gs)"
  by (induction gs) simp_all

lemma length_sort_by_cost: "length (sort_by_cost fl) = length fl"
  by (induction fl) (simp_all add: sort_by_cost_def length_insert_by_cost)




section \<open>The claims\<close>

subsection \<open>C1\<close>

text \<open>
  C1: the claim is that the centroid of every returned frontier is the mean of its member
  points, the initial point included, and that the size is the number of points plus one.
  The size is so, but \<open>buildNewFrontier\<close> divides the sum of the collected points, in
  which the initial point is missing, by that size. On the example map the frontier of
  the cells 5 and 8 has the member points \<open>(5/2, 3/2)\<close> and \<open>(5/2, 5/2)\<close>, whose mean is
  \<open>(5/2, 2)\<close>, and the centroid \<open>(5/4, 5/4)\<close>.
\<close>

theorem searchFrom_centroid_not_mean:
  "size_f (fst (searchFrom (search_ex 1) robot_ex rd_ex CostState0) ! 0)
     = length (points (fst (searchFrom (search_ex 1) robot_ex rd_ex CostState0) ! 0)) + 1
   \<and> member_points (fst (searchFrom (search_ex 1) robot_ex rd_ex CostState0) ! 0)
       = [\<lparr>px = 5 / 2, py = 3 / 2\<rparr>, \<lparr>px = 5 / 2, py = 5 / 2\<rparr>]
   \<and> mean_point (member_points (fst (searchFrom (search_ex 1) robot_ex rd_ex CostState0) ! 0))
       = \<lparr>px = 5 / 2, py = 2\<rparr>
   \<and> centroid (fst (searchFrom (search_ex 1) robot_ex rd_ex CostState0) ! 0)
       = \<lparr>px = 5 / 4, py = 5 / 4\<rparr>
   \<and> centroid (fst (searchFrom (search_ex 1) robot_ex rd_ex CostState0) ! 0)
       \<noteq> mean_point (member_points (fst (searchFrom (search_ex 1) robot_ex rd_ex CostState0) ! 0))"
  by (simp add: searchFrom_ex pair_ex_def member_points_def mean_point_def)

subsection \<open>C2\<close>

text \<open>
  C2, as stated, fails: after an evaluation in the far band (weight 3), one in the near
  band (weight 0) and one in the far band again, the weight is 0, and it is 0 at the
  evaluation after that.
\<close>

theorem weight_does_not_revert:
  "robot_human far_ex = 4 \<and> robot_human near_ex = 2
   \<and> weight (evaluations (search_ex 1) [(pair_ex, far_ex, mean_gen)] CostState0) = 3
   \<and> weight (evaluations (search_ex 1) [(pair_ex, far_ex, mean_gen), (pair_ex, near_ex, mean_gen)] CostState0) = 0
   \<and> weight (evaluations (search_ex 1)
        [(pair_ex, far_ex, mean_gen), (pair_ex, near_ex, mean_gen), (pair_ex, far_ex, mean_gen)] CostState0) = 0
   \<and> weight (evaluations (search_ex 1)
        [(pair_ex, far_ex, mean_gen), (pair_ex, near_ex, mean_gen), (pair_ex, far_ex, mean_gen), (pair_ex, far_ex, mean_gen)]
        CostState0) \<noteq> 3"
  by (simp add: scoreState_eq robot_human_far_ex robot_human_near_ex CostState0_def)

text \<open>
  C2, amended: the weight starts at 0 with the flag unset. An evaluation with the robot
  nearer than 3 to the fixed point sets the weight to 0 and leaves the flag. An evaluation
  with that distance in \<open>[3, 6)\<close> while the flag is unset sets the weight to 3 and sets
  the flag; every other evaluation leaves the state as it is. The flag is never cleared,
  so the weight is set to 3 at most once: once the flag is set and the weight is 0, every
  later evaluation leaves the weight at 0. The weight is 0 or 3 throughout.
\<close>

theorem weight_latch:
  "weight CostState0 = 0 \<and> \<not> flag CostState0
   \<and> (robot_human pose1 < 3
        \<longrightarrow> scoreState fs f1 pose1 n1 st1 = st1\<lparr>weight := 0\<rparr>)
   \<and> (3 \<le> robot_human pose2 \<and> robot_human pose2 < 6 \<and> \<not> flag st2
        \<longrightarrow> scoreState fs f2 pose2 n2 st2 = st2\<lparr>weight := 3, flag := True\<rparr>)
   \<and> (3 \<le> robot_human pose3 \<and> (6 \<le> robot_human pose3 \<or> flag st3)
        \<longrightarrow> scoreState fs f3 pose3 n3 st3 = st3)
   \<and> (flag st4 \<longrightarrow> flag (evaluations fs es4 st4))
   \<and> (flag st5 \<and> weight st5 = 0 \<longrightarrow> weight (evaluations fs es5 st5) = 0)
   \<and> (weight (evaluations fs es6 CostState0) = 0 \<or> weight (evaluations fs es6 CostState0) = 3)"
proof -
  have "flag (evaluations fs es st)" if "flag st" for es st
    using that
  proof (induction es arbitrary: st)
    case Nil
    then show ?case by simp
  next
    case (Cons e es)
    obtain f pose n where e: "e = (f, pose, n)" by (cases e)
    from Cons.prems have "flag (scoreState fs f pose n st)" by (simp add: scoreState_eq)
    from Cons.IH [OF this] e show ?case by simp
  qed
  moreover have "weight (evaluations fs es6 CostState0) = 0 \<or> weight (evaluations fs es6 CostState0) = 3"
    using evaluations_two_valued [of CostState0 fs es6] by (auto simp: CostState0_def)
  ultimately show ?thesis
    by (auto simp: scoreState_eq CostState0_def evaluations_latched_zero)
qed

theorem weight_latch_witness:
  "robot_human near_ex < 3
   \<and> scoreState (search_ex 1) pair_ex near_ex mean_gen \<lparr>weight = 3, flag = True\<rparr>
       = \<lparr>weight = 0, flag = True\<rparr>
   \<and> 3 \<le> robot_human far_ex \<and> robot_human far_ex < 6 \<and> \<not> flag CostState0
   \<and> scoreState (search_ex 1) pair_ex far_ex mean_gen CostState0 = \<lparr>weight = 3, flag = True\<rparr>
   \<and> 3 \<le> robot_human far_ex \<and> flag \<lparr>weight = 0, flag = True\<rparr>
   \<and> scoreState (search_ex 1) pair_ex far_ex mean_gen \<lparr>weight = 0, flag = True\<rparr>
       = \<lparr>weight = 0, flag = True\<rparr>
   \<and> weight \<lparr>weight = 0, flag = True\<rparr> = 0
   \<and> flag (evaluations (search_ex 1) [(pair_ex, far_ex, mean_gen), (pair_ex, robot_ex, mean_gen)]
             \<lparr>weight = 0, flag = True\<rparr>)
   \<and> weight (evaluations (search_ex 1) [(pair_ex, far_ex, mean_gen), (pair_ex, robot_ex, mean_gen)]
               \<lparr>weight = 0, flag = True\<rparr>) = 0"
proof -
  have n: "robot_human near_ex < 3" by (simp add: robot_human_near_ex)
  have f: "3 \<le> robot_human far_ex" "robot_human far_ex < 6" by (simp_all add: robot_human_far_ex)
  have s: "\<not> flag CostState0" by (simp add: CostState0_def)
  from weight_latch [of near_ex "search_ex 1" pair_ex mean_gen "\<lparr>weight = 3, flag = True\<rparr>"
      far_ex CostState0 pair_ex mean_gen far_ex "\<lparr>weight = 0, flag = True\<rparr>" pair_ex
      mean_gen
      "\<lparr>weight = 0, flag = True\<rparr>" "[(pair_ex, far_ex, mean_gen), (pair_ex, robot_ex, mean_gen)]"
      "\<lparr>weight = 0, flag = True\<rparr>" "[(pair_ex, far_ex, mean_gen), (pair_ex, robot_ex, mean_gen)]" "[]"]
    n f s
  show ?thesis by (auto simp: CostState0_def)
qed

subsection \<open>C3\<close>

text \<open>
  C3: the claim is that \<open>middle\<close> is the member cell nearest to the reference and
  \<open>min_distance\<close> its distance, the initial cell being a member. The loop compares only
  the collected points. On the example map the reference is the robot cell at
  \<open>(3/2, 3/2)\<close>; the initial cell of the frontier of the cells 5 and 8 lies at
  \<open>(5/2, 3/2)\<close>, at distance 1, but \<open>middle\<close> is \<open>(5/2, 5/2)\<close> and \<open>min_distance\<close> is
  \<open>sqrt 2\<close>.
\<close>

theorem searchFrom_middle_not_nearest_member:
  "worldToMap grid_ex (px robot_ex) (py robot_ex) = Some (1, 1)
   \<and> cellToWorld grid_ex (getIndex grid_ex 1 1) = \<lparr>px = 3 / 2, py = 3 / 2\<rparr>
   \<and> initial (fst (searchFrom (search_ex 1) robot_ex rd_ex CostState0) ! 0)
       = \<lparr>px = 5 / 2, py = 3 / 2\<rparr>
   \<and> middle (fst (searchFrom (search_ex 1) robot_ex rd_ex CostState0) ! 0)
       = \<lparr>px = 5 / 2, py = 5 / 2\<rparr>
   \<and> min_distance (fst (searchFrom (search_ex 1) robot_ex rd_ex CostState0) ! 0)
       = Finite (sqrt 2)
   \<and> dist_to \<lparr>px = 3 / 2, py = 3 / 2\<rparr> \<lparr>px = 5 / 2, py = 3 / 2\<rparr> = 1
   \<and> dist_to \<lparr>px = 3 / 2, py = 3 / 2\<rparr> \<lparr>px = 5 / 2, py = 5 / 2\<rparr> = sqrt 2
   \<and> (1::real) < sqrt 2"
proof -
  have "cellToWorld grid_ex (getIndex grid_ex 1 1) = \<lparr>px = 3 / 2, py = 3 / 2\<rparr>"
    by (simp add: cellToWorld_def indexToCells_def mapToWorld_def getIndex_def grid_ex_def
        Let_def)
  then show ?thesis
    by (simp add: searchFrom_ex pair_ex_def dist_to_def worldToMap_ex)
qed

subsection \<open>C4\<close>

text \<open>
  C4: within one call of \<open>searchFrom\<close> no grid cell is a member of more than one returned
  frontier. On a map of non-zero resolution different cells have different world points,
  so this reads: no world point occurs twice among the member points of the returned
  frontiers, and the member points of two different frontiers of the list are disjoint.
  The mechanism is the shared flag array: a cell whose flag is set is never accepted by
  the frontier-cell predicate.
\<close>

theorem searchFrom_no_shared_cell:
  assumes "resolution (costmap fs) \<noteq> 0"
    and "fl = fst (searchFrom fs position rd st)"
  shows "distinct (concat (map member_points fl))
         \<and> (\<forall>i j. i < j \<and> j < length fl
                \<longrightarrow> set (member_points (fl ! i)) \<inter> set (member_points (fl ! j)) = {})
         \<and> (\<forall>flags idx. test_flag flags idx \<longrightarrow> \<not> isNewFrontierCell fs idx flags)"
proof -
  have d: "distinct (concat (map member_points fl))"
    unfolding assms(2) using assms(1) by (rule searchFrom_distinct)
  have "set (member_points (fl ! i)) \<inter> set (member_points (fl ! j)) = {}"
    if "i < j" "j < length fl" for i j
    using distinct_concat_nth [OF d, of i j] that by simp
  moreover have "\<not> isNewFrontierCell fs idx flags" if "test_flag flags idx" for flags idx
    using that by (simp add: isNewFrontierCell_def)
  ultimately show ?thesis using d by blast
qed

theorem searchFrom_no_shared_cell_witness:
  "resolution (costmap (search_ex 1)) \<noteq> 0
   \<and> (0::nat) < 1 \<and> 1 < length (fst (searchFrom (search_ex 1) robot_ex rd_ex CostState0))
   \<and> set (member_points (fst (searchFrom (search_ex 1) robot_ex rd_ex CostState0) ! 0))
       \<inter> set (member_points (fst (searchFrom (search_ex 1) robot_ex rd_ex CostState0) ! 1)) = {}
   \<and> test_flag [True] 0 \<and> \<not> isNewFrontierCell (search_ex 1) 0 [True]"
proof -
  have r: "resolution (costmap (search_ex 1)) \<noteq> 0" by (simp add: search_ex_def grid_ex_def)
  have l: "1 < length (fst (searchFrom (search_ex 1) robot_ex rd_ex CostState0))"
    by (simp add: searchFrom_ex)
  have t: "test_flag [True] 0" by (simp add: test_flag_def)
  from searchFrom_no_shared_cell [OF r refl, of robot_ex rd_ex CostState0] r l t
  show ?thesis by simp
qed

subsection \<open>C5\<close>



subsection \<open>C6\<close>

text \<open>
  C6: every frontier of the list returned by \<open>searchFrom\<close> has
  \<open>size * resolution \<ge> min_frontier_size\<close>: a region that fails the test is not appended
  to the list, and the later steps neither add a frontier nor change a size.
\<close>

theorem searchFrom_min_frontier_size:
  assumes "f \<in> set (fst (searchFrom fs position rd st))"
  shows "min_frontier_size fs \<le> real (size_f f) * resolution (costmap fs)"
proof (cases "worldToMap (costmap fs) (px position) (py position)")
  case None
  with assms show ?thesis by (simp add: searchFrom_None)
next
  case (Some a)
  obtain mx my where a: "a = (mx, my)" by (cases a)
  from assms searchFrom_Some [of fs position mx my rd st] Some a
  have "f \<in> set (fst (setCosts fs position rd 0
                        (search_list fs (getIndex (costmap fs) mx my)) st))"
    by (simp add: set_sort_by_cost)
  from setCosts_size_f [OF this] obtain g where
    "g \<in> set (search_list fs (getIndex (costmap fs) mx my))" "size_f f = size_f g" by blast
  with search_list_sizes [of g fs] show ?thesis by simp
qed

theorem searchFrom_min_frontier_size_witness:
  "single_ex\<lparr>cost := PosInf\<rparr> \<in> set (fst (searchFrom (search_ex 1) robot_ex rd_ex CostState0))
   \<and> min_frontier_size (search_ex 1)
       \<le> real (size_f (single_ex\<lparr>cost := PosInf\<rparr>)) * resolution (costmap (search_ex 1))"
proof -
  have h: "single_ex\<lparr>cost := PosInf\<rparr>
             \<in> set (fst (searchFrom (search_ex 1) robot_ex rd_ex CostState0))"
    by (simp add: searchFrom_ex)
  from h searchFrom_min_frontier_size [OF h] show ?thesis by blast
qed

subsection \<open>C7\<close>

text \<open>
  C7: the claim is that the returned list is in non-decreasing order of cost. A frontier
  without collected points keeps the infinite \<open>min_distance\<close>, and with a potential scale
  of 0 its cost is \<open>0 * infinity\<close>, which is NaN; no order of the list then satisfies the
  claim. On the example map with potential scale 0 the returned costs are \<open>-2\<close> and NaN.
\<close>

theorem searchFrom_not_sorted_with_NaN:
  "map cost (fst (searchFrom (search_ex 0) robot_ex rd_ex CostState0)) = [Finite (- 2), NaN]
   \<and> \<not> dle (Finite (- 2)) NaN \<and> \<not> dle NaN (Finite (- 2))
   \<and> \<not> sorted_wrt (\<lambda>f g. dle (cost f) (cost g))
          (fst (searchFrom (search_ex 0) robot_ex rd_ex CostState0))"
  by (simp add: searchFrom_ex0)

subsection \<open>C8\<close>

text \<open>
  C8: if the origin position does not map to grid coordinates, \<open>searchFrom\<close> returns the
  empty frontier list and emits one error diagnostic; nothing is traversed or scored, and
  the state of the cost model is as before.
\<close>

theorem searchFrom_out_of_bounds:
  assumes "worldToMap (costmap fs) (px position) (py position) = None"
  shows "searchFrom fs position rd st =
           ([], st, [ROS_ERROR ''Robot out of costmap bounds, cannot search for frontiers''])"
  using assms by (simp add: searchFrom_def)

theorem searchFrom_out_of_bounds_witness:
  "worldToMap (costmap (search_ex 1)) (px \<lparr>px = 7 / 2, py = 3 / 2\<rparr>) (py \<lparr>px = 7 / 2, py = 3 / 2\<rparr>)
     = None
   \<and> searchFrom (search_ex 1) \<lparr>px = 7 / 2, py = 3 / 2\<rparr> rd_ex CostState0 =
       ([], CostState0, [ROS_ERROR ''Robot out of costmap bounds, cannot search for frontiers''])
   \<and> worldToMap (costmap (search_ex 1)) (px \<lparr>px = 4294967297, py = 3 / 2\<rparr>)
         (py \<lparr>px = 4294967297, py = 3 / 2\<rparr>) = None
   \<and> searchFrom (search_ex 1) \<lparr>px = 4294967297, py = 3 / 2\<rparr> rd_ex CostState0 =
       ([], CostState0, [ROS_ERROR ''Robot out of costmap bounds, cannot search for frontiers''])
   \<and> worldToMap (costmap (search_ex 1)) (px \<lparr>px = - 1 / 2, py = 3 / 2\<rparr>)
         (py \<lparr>px = - 1 / 2, py = 3 / 2\<rparr>) = None
   \<and> searchFrom (search_ex 1) \<lparr>px = - 1 / 2, py = 3 / 2\<rparr> rd_ex CostState0 =
       ([], CostState0, [ROS_ERROR ''Robot out of costmap bounds, cannot search for frontiers''])"
proof -
  have h: "worldToMap (costmap (search_ex 1)) (px \<lparr>px = 7 / 2, py = 3 / 2\<rparr>)
             (py \<lparr>px = 7 / 2, py = 3 / 2\<rparr>) = None"
    by (simp add: worldToMap_def search_ex_def grid_ex_def double_to_int_def int_to_uint_def)
  have far: "worldToMap (costmap (search_ex 1)) (px \<lparr>px = 4294967297, py = 3 / 2\<rparr>)
             (py \<lparr>px = 4294967297, py = 3 / 2\<rparr>) = None"
    by (simp add: worldToMap_def search_ex_def grid_ex_def double_to_int_def int_to_uint_def)
  have neg: "worldToMap (costmap (search_ex 1)) (px \<lparr>px = - 1 / 2, py = 3 / 2\<rparr>)
             (py \<lparr>px = - 1 / 2, py = 3 / 2\<rparr>) = None"
    by (simp add: worldToMap_def search_ex_def grid_ex_def)
  from h far neg searchFrom_out_of_bounds [OF h] searchFrom_out_of_bounds [OF far]
    searchFrom_out_of_bounds [OF neg]
  show ?thesis by blast
qed

subsection \<open>C9\<close>

text \<open>
  C9: two calls of \<open>searchFrom\<close> on the same map from the same robot position return the
  same frontier list (the same frontiers with the same points, statistics and costs, in
  the same order) when the noise samples drawn by the score evaluations are the same and
  the weight that the cost model applies at this position is the same in both, whatever
  else the two states of the cost model are.
\<close>

theorem searchFrom_deterministic:
  assumes "weight (scoreState fs f position x st1) = weight (scoreState fs f position x st2)"
    and "\<forall>k<length (fst (searchFrom fs position rda st1)). rda k 0 0.2 = rdb k 0 0.2"
  shows "fst (searchFrom fs position rda st1) = fst (searchFrom fs position rdb st2)"
proof (cases "worldToMap (costmap fs) (px position) (py position)")
  case None
  then show ?thesis by (simp add: searchFrom_None)
next
  case (Some a)
  obtain mx my where a: "a = (mx, my)" by (cases a)
  note r = searchFrom_Some [of fs position mx my]
  from Some a have w: "worldToMap (costmap fs) (px position) (py position) = Some (mx, my)"
    by simp
  have "length (fst (searchFrom fs position rda st1))
        = length (search_list fs (getIndex (costmap fs) mx my))"
    by (simp add: r [OF w] length_sort_by_cost length_setCosts)
  with assms(2) have "\<forall>i<length (search_list fs (getIndex (costmap fs) mx my)).
                         rda (0 + i) 0 0.2 = rdb (0 + i) 0 0.2" by simp
  from setCosts_weight [where rda = rda and rdb = rdb and k = 0, OF assms(1) this]
  show ?thesis by (simp add: r [OF w])
qed

theorem searchFrom_deterministic_witness:
  "weight (scoreState (search_ex 1) pair_ex robot_ex mean_gen CostState0)
     = weight (scoreState (search_ex 1) pair_ex robot_ex mean_gen \<lparr>weight = 0, flag = True\<rparr>)
   \<and> length (fst (searchFrom (search_ex 1) robot_ex rd_ex CostState0)) = 2
   \<and> rd_ex 0 0 0.2 = rd_ex2 0 0 0.2
   \<and> rd_ex 1 0 0.2 = rd_ex2 1 0 0.2
   \<and> rd_ex 2 0 0.2 \<noteq> rd_ex2 2 0 0.2
   \<and> fst (searchFrom (search_ex 1) robot_ex rd_ex CostState0)
       = fst (searchFrom (search_ex 1) robot_ex rd_ex2 \<lparr>weight = 0, flag = True\<rparr>)"
proof -
  have a: "weight (scoreState (search_ex 1) pair_ex robot_ex mean_gen CostState0)
     = weight (scoreState (search_ex 1) pair_ex robot_ex mean_gen \<lparr>weight = 0, flag = True\<rparr>)"
    using robot_human_robot_ex by (simp add: scoreState_eq CostState0_def)
  have l: "length (fst (searchFrom (search_ex 1) robot_ex rd_ex CostState0)) = 2"
    by (simp add: searchFrom_ex)
  have b: "\<forall>k<length (fst (searchFrom (search_ex 1) robot_ex rd_ex CostState0)).
             rd_ex k 0 0.2 = rd_ex2 k 0 0.2"
    by (simp add: l rd_ex_def rd_ex2_def mean_gen_def)
  from searchFrom_deterministic [where rda = rd_ex and rdb = rd_ex2, OF a b] a l
  show ?thesis by (simp add: rd_ex_def rd_ex2_def mean_gen_def)
qed

subsection \<open>C10\<close>

text \<open>
  C10: when no cell of the 8-connected neighbourhood of the initial cell passes the
  frontier-cell predicate, the region search accepts nothing: the returned frontier has no
  points, size 1, an infinite \<open>min_distance\<close>, and \<open>middle\<close> and \<open>centroid\<close> at the
  default point \<open>(0, 0)\<close>; the flags are as they were. The initial cell is neither among
  the points nor in the centroid sums nor compared with \<open>min_distance\<close>. Such a frontier
  passes the size test of \<open>searchFrom\<close> exactly when \<open>min_frontier_size \<le> resolution\<close>.
\<close>

theorem buildNewFrontier_single_cell:
  assumes "\<forall>nbr\<in>set (nhood8 (costmap fs) initial_cell). \<not> isNewFrontierCell fs nbr frontier_flag"
  shows "points (fst (buildNewFrontier fs initial_cell reference frontier_flag)) = []
       \<and> size_f (fst (buildNewFrontier fs initial_cell reference frontier_flag)) = 1
       \<and> min_distance (fst (buildNewFrontier fs initial_cell reference frontier_flag)) = PosInf
       \<and> middle (fst (buildNewFrontier fs initial_cell reference frontier_flag)) = \<lparr>px = 0, py = 0\<rparr>
       \<and> centroid (fst (buildNewFrontier fs initial_cell reference frontier_flag)) = \<lparr>px = 0, py = 0\<rparr>
       \<and> initial (fst (buildNewFrontier fs initial_cell reference frontier_flag))
           = cellToWorld (costmap fs) initial_cell
       \<and> snd (buildNewFrontier fs initial_cell reference frontier_flag) = frontier_flag
       \<and> (min_frontier_size fs
            \<le> real (size_f (fst (buildNewFrontier fs initial_cell reference frontier_flag)))
               * resolution (costmap fs)
          \<longleftrightarrow> min_frontier_size fs \<le> resolution (costmap fs))"
proof -
  have "buildNewFrontier_for fs r (nhood8 (costmap fs) initial_cell) ([], frontier_flag, out)
        = ([], frontier_flag, out)" for r out
    using assms by (rule buildNewFrontier_for_none)
  then have "buildNewFrontier_while fs r [initial_cell] frontier_flag out = (frontier_flag, out)"
    for r out by simp
  then show ?thesis by (simp add: buildNewFrontier_def Let_def Point0_def)
qed

theorem buildNewFrontier_single_cell_witness:
  "nhood8 (costmap (search_ex 1)) 0 = [1, 3, 4]
   \<and> \<not> isNewFrontierCell (search_ex 1) 1
          [True, False, False, False, False, False, False, False, False]
   \<and> \<not> isNewFrontierCell (search_ex 1) 3
          [True, False, False, False, False, False, False, False, False]
   \<and> \<not> isNewFrontierCell (search_ex 1) 4
          [True, False, False, False, False, False, False, False, False]
   \<and> points (fst (buildNewFrontier (search_ex 1) 0 4
                [True, False, False, False, False, False, False, False, False])) = []
   \<and> size_f (fst (buildNewFrontier (search_ex 1) 0 4
                [True, False, False, False, False, False, False, False, False])) = 1
   \<and> min_distance (fst (buildNewFrontier (search_ex 1) 0 4
                [True, False, False, False, False, False, False, False, False])) = PosInf
   \<and> middle (fst (buildNewFrontier (search_ex 1) 0 4
                [True, False, False, False, False, False, False, False, False]))
       = \<lparr>px = 0, py = 0\<rparr>
   \<and> min_frontier_size (search_ex 1) \<le> resolution (costmap (search_ex 1))
   \<and> single_ex\<lparr>cost := PosInf\<rparr>
       \<in> set (fst (searchFrom (search_ex 1) robot_ex rd_ex CostState0))"
proof -
  have n: "nhood8 (costmap (search_ex 1)) 0 = [1, 3, 4]"
    by (simp add: search_ex_def grid_ex_def nhood8_def nhood4_def)
  have c: "\<not> isNewFrontierCell (search_ex 1) 1
          [True, False, False, False, False, False, False, False, False]"
    "\<not> isNewFrontierCell (search_ex 1) 3
          [True, False, False, False, False, False, False, False, False]"
    "\<not> isNewFrontierCell (search_ex 1) 4
          [True, False, False, False, False, False, False, False, False]"
    by (simp_all add: search_ex_def grid_ex_def isNewFrontierCell_def map_cell_def
        NO_INFORMATION_def)
  from n c have h: "\<forall>nbr\<in>set (nhood8 (costmap (search_ex 1)) 0).
      \<not> isNewFrontierCell (search_ex 1) nbr
          [True, False, False, False, False, False, False, False, False]"
    by simp
  have m: "min_frontier_size (search_ex 1) \<le> resolution (costmap (search_ex 1))"
    by (simp add: search_ex_def grid_ex_def)
  have r: "single_ex\<lparr>cost := PosInf\<rparr>
       \<in> set (fst (searchFrom (search_ex 1) robot_ex rd_ex CostState0))"
    by (simp add: searchFrom_ex)
  from buildNewFrontier_single_cell [OF h, of 4] n c m r show ?thesis by blast
qed

end
